(* ===== verification/Prelude.thy ===== *)
theory Prelude
  imports Main "HOL-Library.Word" "HOL-Library.AList" "HOL-Library.Char_ord"
    "HOL-Library.List_Lexorder" "HOL-Library.Multiset"
begin

text \<open>
  Shared vocabulary of the development: the types the Go program works with
  (bytes, strings, errors), Go's string primitives \<open>strings.HasPrefix\<close>,
  \<open>strings.HasSuffix\<close> and slice expressions with their panics, the
  association lists that stand for directories, and the rule collections
  the component theories feed and use.
\<close>

named_theorems golib \<open>evaluation rules of the Go standard-library model\<close>
named_theorems model_inv \<open>invariant facts of the component models\<close>

type_synonym byte = "8 word"
type_synonym bytes = "byte list"

text \<open>
  Error numbers of the \<open>os\<close> package as the model produces them, and the
  reasons \<open>time.Parse\<close> gives for rejecting a string.
\<close>

datatype oserr = ENOENT | EACCES | ENOTDIR | EISDIR | ENOSPC | EIO

datatype perr = ErrBad | ErrRange string | ErrExtraText

text \<open>
  The program's error values. \<open>PathError\<close> is Go's \<open>*os.PathError\<close> (operation,
  path, errno); the three mismatch errors are \<open>errPrefix\<close>, \<open>errSuffix\<close> and
  \<open>errDate\<close> of \<open>dailywriter.go\<close>; \<open>CompressFailed\<close> is the wrapping
  \<open>fmt.Errorf("failed to compress log file: %v", err)\<close>; \<open>ErrInvalid\<close> is
  \<open>os.ErrInvalid\<close>, returned by a method call on a nil \<open>*os.File\<close>.
  \<open>Panic\<close> is a run-time panic: the model returns it as a value so that the
  caller's fate is visible, but no Go code recovers from it.
\<close>

datatype err =
    PathError string string oserr
  | ErrMismatchedPrefix
  | ErrMismatchedSuffix
  | ErrMismatchedDate
  | TimeParseError perr
  | CompressFailed err
  | ErrInvalid
  | Panic string

subsection \<open>Go string primitives\<close>

definition has_prefix :: "string \<Rightarrow> string \<Rightarrow> bool" where
  "has_prefix s p \<longleftrightarrow> length p \<le> length s \<and> take (length p) s = p"

definition has_suffix :: "string \<Rightarrow> string \<Rightarrow> bool" where
  "has_suffix s x \<longleftrightarrow> length x \<le> length s \<and> drop (length s - length x) s = x"

text \<open>
  A slice expression \<open>s[lo:hi]\<close> on a string: Go panics unless
  \<open>0 \<le> lo \<le> hi \<le> len(s)\<close>; \<open>None\<close> is that panic.
\<close>

definition go_slice :: "'a list \<Rightarrow> nat \<Rightarrow> nat \<Rightarrow> 'a list option" where
  "go_slice s lo hi = (if lo \<le> hi \<and> hi \<le> length s then Some (take (hi - lo) (drop lo s)) else None)"

lemma has_prefix_iff: "has_prefix s p \<longleftrightarrow> (\<exists>r. s = p @ r)"
  unfolding has_prefix_def by (metis append_eq_conv_conj append_take_drop_id le_add1 length_append)

lemma has_suffix_iff: "has_suffix s x \<longleftrightarrow> (\<exists>r. s = r @ x)"
proof
  assume "has_suffix s x"
  then have "s = take (length s - length x) s @ x"
    unfolding has_suffix_def by (metis append_take_drop_id)
  then show "\<exists>r. s = r @ x" ..
next
  assume "\<exists>r. s = r @ x"
  then show "has_suffix s x" by (auto simp: has_suffix_def)
qed

lemma has_prefix_append [simp, golib]: "has_prefix (p @ r) p"
  by (auto simp: has_prefix_iff)

lemma has_suffix_append [simp, golib]: "has_suffix (r @ x) x"
  by (auto simp: has_suffix_iff)

lemma has_suffix_Nil [simp, golib]: "has_suffix s []"
  by (simp add: has_suffix_def)

lemma go_slice_middle [simp, golib]:
  "go_slice (a @ b @ c) (length a) (length a + length b) = Some b"
  by (simp add: go_slice_def)

lemma go_slice_None_iff: "go_slice s lo hi = None \<longleftrightarrow> \<not> (lo \<le> hi \<and> hi \<le> length s)"
  by (simp add: go_slice_def)

subsection \<open>Association lists\<close>

text \<open>
  Directories are association lists from paths to entries, updated with
  \<open>AList.update\<close> and \<open>AList.delete\<close> and read with \<open>map_of\<close>.
\<close>

lemma map_of_update_same [simp, golib]: "map_of (AList.update k v al) k = Some v"
  by (simp add: update_conv')

lemma map_of_update_other [simp, golib]: "k' \<noteq> k \<Longrightarrow> map_of (AList.update k v al) k' = map_of al k'"
  by (simp add: update_conv')

lemma map_of_delete_same [simp, golib]: "map_of (AList.delete k al) k = None"
  by (simp add: delete_conv')

lemma map_of_delete_other [golib]: "k' \<noteq> k \<Longrightarrow> map_of (AList.delete k al) k' = map_of al k'"
  by (simp add: delete_conv')

subsection \<open>Lists\<close>

text \<open>A sum over a list after one element is replaced; a predicate kept by a replacement.\<close>

lemma sum_list_map_update:
  fixes f :: "'a \<Rightarrow> 'b::comm_monoid_add"
  shows "i < length xs \<Longrightarrow> sum_list (map f (xs[i := x])) + f (xs ! i) = sum_list (map f xs) + f x"
proof (induction xs arbitrary: i)
  case (Cons y ys)
  then show ?case by (cases i) (simp_all add: add_ac)
qed simp

lemma list_all_update_if: "list_all P xs \<Longrightarrow> P x \<Longrightarrow> list_all P (xs[i := x])"
  by (auto simp: list_all_iff dest: set_update_subset_insert[THEN subsetD])

subsection \<open>Words\<close>

text \<open>Go's \<open>int64\<close> conversions: a value in range survives the round trip through a word.\<close>

lemma sint_word_of_int_id:
  "- (2 ^ 63) \<le> x \<Longrightarrow> x < 2 ^ 63 \<Longrightarrow> sint (word_of_int x :: 64 word) = x"
  by (simp add: int_word_sint)

lemma word_of_int_sint_id: "word_of_int (sint (i :: 'a::len word)) = i"
  by (metis scast_eq scast_id)

end
