(* ===== verification/GoTime.thy ===== *)
theory GoTime
  imports Prelude
begin

text \<open>
  The part of Go's \<open>time\<close> package the program relies on: wall-clock readings
  (\<open>time.Time\<close> in the local zone, as a record of its calendar fields),
  layouts (\<open>"2006-01-02-15-04-05"\<close> and kin) as lists of layout chunks,
  \<open>Time.Format\<close>, \<open>time.ParseInLocation\<close> and the order \<open>Before\<close>/\<open>After\<close>.
  These are library functions the sources only call; they are modelled from
  the Go documentation and the behaviour of \<open>format.go\<close> for the chunks the
  program's layouts contain.  The main result is the round trip: parsing a
  formatted reading gives back the reading truncated to the layout.
\<close>

record civil =
  year :: int
  month :: nat
  day :: nat
  hour :: nat
  minute :: nat
  second :: nat
  nanosecond :: nat

definition civil0 :: civil where
  "civil0 = \<lparr>year = 0, month = 1, day = 1, hour = 0, minute = 0, second = 0, nanosecond = 0\<rparr>"

definition is_leap :: "int \<Rightarrow> bool" where
  "is_leap y \<longleftrightarrow> y mod 4 = 0 \<and> (y mod 100 \<noteq> 0 \<or> y mod 400 = 0)"

definition days_in :: "nat \<Rightarrow> int \<Rightarrow> nat" where
  "days_in m y = (if m = 2 then (if is_leap y then 29 else 28)
                  else if m \<in> {4, 6, 9, 11} then 30 else 31)"

definition valid_civil :: "civil \<Rightarrow> bool" where
  "valid_civil c \<longleftrightarrow> 1 \<le> month c \<and> month c \<le> 12 \<and> 1 \<le> day c \<and> day c \<le> days_in (month c) (year c)
     \<and> hour c < 24 \<and> minute c < 60 \<and> second c < 60 \<and> nanosecond c < 1000000000"

subsection \<open>Layouts\<close>

text \<open>
  A layout is split by Go's \<open>nextStdChunk\<close> into standard chunks and literal
  text.  \<open>chunk\<close> has the standard chunks the program's layouts use.
\<close>

datatype chunk =
    StdLongYear
  | StdZeroMonth
  | StdZeroDay
  | StdHour
  | StdZeroMinute
  | StdZeroSecond
  | StdFracSecond0 nat
  | StdLit char

definition is_digit :: "char \<Rightarrow> bool" where
  "is_digit ch \<longleftrightarrow> (48::nat) \<le> of_char ch \<and> of_char ch \<le> (57::nat)"

definition digit_char :: "nat \<Rightarrow> char" where
  "digit_char d = char_of (48 + d)"

definition digit_val :: "char \<Rightarrow> nat" where
  "digit_val ch = of_char ch - 48"

text \<open>
  The chunker: \<open>None\<close> where the layout holds a chunk outside this fragment
  (a character that may start another standard chunk of Go).
\<close>

definition may_start_std :: "char \<Rightarrow> string \<Rightarrow> bool" where
  "may_start_std ch cs \<longleftrightarrow> ch \<in> set ''012345JMPpZ_.,'' \<or> (ch = CHR ''-'' \<and> take 2 cs = ''07'')"

definition next_chunk :: "char \<Rightarrow> string \<Rightarrow> (chunk \<times> string) option" where
  "next_chunk ch cs =
    (if ch = CHR ''2'' \<and> take 3 cs = ''006'' then Some (StdLongYear, drop 3 cs)
     else if ch = CHR ''0'' \<and> take 1 cs = ''1'' then Some (StdZeroMonth, drop 1 cs)
     else if ch = CHR ''0'' \<and> take 1 cs = ''2'' then Some (StdZeroDay, drop 1 cs)
     else if ch = CHR ''1'' \<and> take 1 cs = ''5'' then Some (StdHour, drop 1 cs)
     else if ch = CHR ''0'' \<and> take 1 cs = ''4'' then Some (StdZeroMinute, drop 1 cs)
     else if ch = CHR ''0'' \<and> take 1 cs = ''5'' then Some (StdZeroSecond, drop 1 cs)
     else if ch \<in> {CHR ''.'', CHR '',''} \<and> take 1 cs = ''0''
             \<and> \<not> (dropWhile (\<lambda>x. x = CHR ''0'') cs \<noteq> [] \<and> is_digit (hd (dropWhile (\<lambda>x. x = CHR ''0'') cs)))
       then Some (StdFracSecond0 (length (takeWhile (\<lambda>x. x = CHR ''0'') cs)), dropWhile (\<lambda>x. x = CHR ''0'') cs)
     else if may_start_std ch cs then None
     else Some (StdLit ch, cs))"

function layout_chunks :: "string \<Rightarrow> chunk list option" where
  "layout_chunks [] = Some []"
| "layout_chunks (ch # cs) =
     (case next_chunk ch cs of None \<Rightarrow> None
      | Some (k, rest) \<Rightarrow> map_option ((#) k) (layout_chunks rest))"
  by pat_completeness auto
termination
proof (relation "measure length")
  show "wf (measure length)" by simp
next
  fix ch cs x k rest
  assume a: "next_chunk ch cs = Some x" and x: "(k, rest) = x"
  have "rest = drop 3 cs \<or> rest = drop 1 cs \<or> rest = dropWhile (\<lambda>x. x = CHR ''0'') cs \<or> rest = cs"
    using a unfolding x[symmetric] next_chunk_def by (simp only: split: if_split_asm) simp_all
  then show "(rest, ch # cs) \<in> measure length"
    by (auto simp: length_dropWhile_le le_imp_less_Suc)
qed

definition layout_day :: "chunk list" where
  "layout_day = [StdLongYear, StdLit CHR ''-'', StdZeroMonth, StdLit CHR ''-'', StdZeroDay]"

definition layout_hour :: "chunk list" where
  "layout_hour = layout_day @ [StdLit CHR ''-'', StdHour]"

definition layout_minute :: "chunk list" where
  "layout_minute = layout_hour @ [StdLit CHR ''-'', StdZeroMinute]"

definition layout_second :: "chunk list" where
  "layout_second = layout_minute @ [StdLit CHR ''-'', StdZeroSecond]"

definition layout_stamp :: "chunk list" where
  "layout_stamp = [StdLongYear, StdLit CHR ''-'', StdZeroMonth, StdLit CHR ''-'', StdZeroDay,
     StdLit CHR '' '', StdHour, StdLit CHR '':'', StdZeroMinute, StdLit CHR '':'', StdZeroSecond,
     StdFracSecond0 3]"

subsection \<open>Formatting\<close>

fun dec_digits :: "nat \<Rightarrow> string" where
  "dec_digits n = (if n < 10 then [digit_char n] else dec_digits (n div 10) @ [digit_char (n mod 10)])"

declare dec_digits.simps [simp del]

text \<open>\<open>appendInt(b, x, width)\<close> of \<open>format.go\<close>: sign, zero padding to the width, digits.\<close>

definition append_int :: "int \<Rightarrow> nat \<Rightarrow> string" where
  "append_int x w =
     (let ds = dec_digits (nat \<bar>x\<bar>)
      in (if x < 0 then ''-'' else []) @ replicate (w - length ds) (CHR ''0'') @ ds)"

fun fmt_chunk :: "civil \<Rightarrow> chunk \<Rightarrow> string" where
  "fmt_chunk c StdLongYear = append_int (year c) 4"
| "fmt_chunk c StdZeroMonth = append_int (int (month c)) 2"
| "fmt_chunk c StdZeroDay = append_int (int (day c)) 2"
| "fmt_chunk c StdHour = append_int (int (hour c)) 2"
| "fmt_chunk c StdZeroMinute = append_int (int (minute c)) 2"
| "fmt_chunk c StdZeroSecond = append_int (int (second c)) 2"
| "fmt_chunk c (StdFracSecond0 n) = CHR ''.'' # take n (append_int (int (nanosecond c)) 9)"
| "fmt_chunk c (StdLit ch) = [ch]"

definition time_format :: "chunk list \<Rightarrow> civil \<Rightarrow> string" where
  "time_format l c = concat (map (fmt_chunk c) l)"

subsection \<open>Parsing\<close>

definition dec_val :: "string \<Rightarrow> nat" where
  "dec_val s = foldl (\<lambda>a ch. 10 * a + digit_val ch) 0 s"

text \<open>\<open>atoi\<close> of \<open>format.go\<close>: an optional sign, then only digits.\<close>

definition go_atoi :: "string \<Rightarrow> perr + int" where
  "go_atoi s =
     (let neg = (s \<noteq> [] \<and> hd s = CHR ''-'');
          s' = (if s \<noteq> [] \<and> hd s \<in> {CHR ''-'', CHR ''+''} then tl s else s)
      in if list_all is_digit s' then Inr (if neg then - int (dec_val s') else int (dec_val s'))
         else Inl ErrBad)"

text \<open>\<open>getnum(s, fixed)\<close>: one or two leading digits; exactly two when \<open>fixed\<close>.\<close>

definition getnum :: "string \<Rightarrow> bool \<Rightarrow> perr + (int \<times> string)" where
  "getnum s fixed =
     (if s = [] \<or> \<not> is_digit (s ! 0) then Inl ErrBad
      else if length s < 2 \<or> \<not> is_digit (s ! 1) then
        (if fixed then Inl ErrBad else Inr (int (digit_val (s ! 0)), drop 1 s))
      else Inr (int (10 * digit_val (s ! 0) + digit_val (s ! 1)), drop 2 s))"

fun parse_chunk :: "chunk \<Rightarrow> string \<Rightarrow> civil \<Rightarrow> perr + (string \<times> civil)" where
  "parse_chunk StdLongYear v c =
     (if length v < 4 \<or> \<not> is_digit (hd v) then Inl ErrBad
      else (case go_atoi (take 4 v) of Inl e \<Rightarrow> Inl e | Inr y \<Rightarrow> Inr (drop 4 v, c\<lparr>year := y\<rparr>)))"
| "parse_chunk StdZeroMonth v c =
     (case getnum v True of Inl e \<Rightarrow> Inl e
      | Inr (n, v') \<Rightarrow> if n \<le> 0 \<or> 12 < n then Inl (ErrRange ''month'') else Inr (v', c\<lparr>month := nat n\<rparr>))"
| "parse_chunk StdZeroDay v c =
     (case getnum v True of Inl e \<Rightarrow> Inl e | Inr (n, v') \<Rightarrow> Inr (v', c\<lparr>day := nat n\<rparr>))"
| "parse_chunk StdHour v c =
     (case getnum v False of Inl e \<Rightarrow> Inl e
      | Inr (n, v') \<Rightarrow> if n < 0 \<or> 24 \<le> n then Inl (ErrRange ''hour'') else Inr (v', c\<lparr>hour := nat n\<rparr>))"
| "parse_chunk StdZeroMinute v c =
     (case getnum v True of Inl e \<Rightarrow> Inl e
      | Inr (n, v') \<Rightarrow> if n < 0 \<or> 60 \<le> n then Inl (ErrRange ''minute'') else Inr (v', c\<lparr>minute := nat n\<rparr>))"
| "parse_chunk StdZeroSecond v c =
     (case getnum v True of Inl e \<Rightarrow> Inl e
      | Inr (n, v') \<Rightarrow> if n < 0 \<or> 60 \<le> n then Inl (ErrRange ''second'') else Inr (v', c\<lparr>second := nat n\<rparr>))"
| "parse_chunk (StdFracSecond0 n) v c =
     (if length v < Suc n \<or> v ! 0 \<notin> {CHR ''.'', CHR '',''} then Inl ErrBad
      else (case go_atoi (take n (drop 1 v)) of Inl e \<Rightarrow> Inl e
            | Inr k \<Rightarrow> if k < 0 then Inl (ErrRange ''fractional second'')
                       else Inr (drop (Suc n) v, c\<lparr>nanosecond := nat k * 10 ^ (9 - n)\<rparr>)))"
| "parse_chunk (StdLit ch) v c = (if v \<noteq> [] \<and> hd v = ch then Inr (tl v, c) else Inl ErrBad)"

fun parse_chunks :: "chunk list \<Rightarrow> string \<Rightarrow> civil \<Rightarrow> perr + (string \<times> civil)" where
  "parse_chunks [] v c = Inr (v, c)"
| "parse_chunks (k # ks) v c =
     (case parse_chunk k v c of Inl e \<Rightarrow> Inl e | Inr (v', c') \<Rightarrow> parse_chunks ks v' c')"

text \<open>\<open>time.ParseInLocation(layout, value, time.Local)\<close>.\<close>

definition time_parse :: "chunk list \<Rightarrow> string \<Rightarrow> perr + civil" where
  "time_parse l v =
     (case parse_chunks l v civil0 of Inl e \<Rightarrow> Inl e
      | Inr (rest, c) \<Rightarrow>
          if rest \<noteq> [] then Inl ErrExtraText
          else if day c < 1 \<or> days_in (month c) (year c) < day c then Inl (ErrRange ''day'')
          else Inr c)"

subsection \<open>Truncation to a layout\<close>

text \<open>
  What a layout keeps of a reading: the fields its chunks print, the other
  fields at their \<open>time.Parse\<close> defaults.  A fractional chunk of \<open>n\<close>
  digits keeps the nanoseconds down to \<open>10^(9-n)\<close>.
\<close>

fun keep_chunk :: "civil \<Rightarrow> civil \<Rightarrow> chunk \<Rightarrow> civil" where
  "keep_chunk c acc StdLongYear = acc\<lparr>year := year c\<rparr>"
| "keep_chunk c acc StdZeroMonth = acc\<lparr>month := month c\<rparr>"
| "keep_chunk c acc StdZeroDay = acc\<lparr>day := day c\<rparr>"
| "keep_chunk c acc StdHour = acc\<lparr>hour := hour c\<rparr>"
| "keep_chunk c acc StdZeroMinute = acc\<lparr>minute := minute c\<rparr>"
| "keep_chunk c acc StdZeroSecond = acc\<lparr>second := second c\<rparr>"
| "keep_chunk c acc (StdFracSecond0 n) =
     acc\<lparr>nanosecond := nanosecond c div 10 ^ (9 - n) * 10 ^ (9 - n)\<rparr>"
| "keep_chunk c acc (StdLit ch) = acc"

definition trunc_layout :: "chunk list \<Rightarrow> civil \<Rightarrow> civil" where
  "trunc_layout l c = foldl (keep_chunk c) civil0 l"

text \<open>Chunks whose printed form \<open>time.Parse\<close> reads back (at most nine fraction digits).\<close>

fun chunk_rt :: "chunk \<Rightarrow> bool" where
  "chunk_rt (StdFracSecond0 n) = (n \<le> 9)"
| "chunk_rt _ = True"

text \<open>The printed width of a chunk for a reading with a four-digit year.\<close>

fun chunk_width :: "chunk \<Rightarrow> nat" where
  "chunk_width StdLongYear = 4"
| "chunk_width (StdFracSecond0 n) = Suc n"
| "chunk_width (StdLit ch) = 1"
| "chunk_width _ = 2"

subsection \<open>Instants and order\<close>

text \<open>
  Nanoseconds since 0000-01-01 00:00 of the local wall clock (proleptic
  Gregorian calendar).  \<open>Before\<close>, \<open>After\<close> and \<open>Add\<close> compare and shift
  instants; daylight-saving shifts of the local zone are not modelled.
\<close>

definition days_before_year :: "int \<Rightarrow> int" where
  "days_before_year y = 365 * y + (y + 3) div 4 - (y + 99) div 100 + (y + 399) div 400"

definition days_before_month :: "nat \<Rightarrow> int \<Rightarrow> nat" where
  "days_before_month m y = sum_list (map (\<lambda>k. days_in k y) [1..<m])"

definition abs_nanos :: "civil \<Rightarrow> int" where
  "abs_nanos c =
     ((((days_before_year (year c) + int (days_before_month (month c) (year c)) + int (day c) - 1) * 24
        + int (hour c)) * 60 + int (minute c)) * 60 + int (second c)) * 1000000000 + int (nanosecond c)"

definition time_before :: "civil \<Rightarrow> civil \<Rightarrow> bool" where
  "time_before a b \<longleftrightarrow> abs_nanos a < abs_nanos b"

definition time_after :: "civil \<Rightarrow> civil \<Rightarrow> bool" where
  "time_after a b \<longleftrightarrow> abs_nanos b < abs_nanos a"

subsection \<open>Decimal digits\<close>

lemma digit_char_props [simp]:
  assumes "d < 10"
  shows "is_digit (digit_char d)" and "digit_val (digit_char d) = d"
  using assms by (simp_all add: digit_char_def is_digit_def digit_val_def of_char_of)

lemma is_digit_zero [simp]: "is_digit CHR ''0''" and digit_val_zero [simp]: "digit_val CHR ''0'' = 0"
  by (simp_all add: is_digit_def digit_val_def)

lemma digit_val_less: "is_digit ch \<Longrightarrow> digit_val ch < 10"
  unfolding is_digit_def digit_val_def by linarith

lemma dec_val_append: "dec_val (a @ b) = dec_val a * 10 ^ length b + dec_val b"
proof (induction b rule: rev_induct)
  case Nil
  then show ?case by (simp add: dec_val_def)
next
  case (snoc x b)
  then show ?case by (simp add: dec_val_def algebra_simps)
qed

lemma dec_val_less: "list_all is_digit s \<Longrightarrow> dec_val s < 10 ^ length s"
proof (induction s rule: rev_induct)
  case Nil
  then show ?case by (simp add: dec_val_def)
next
  case (snoc x s)
  then have "dec_val s < 10 ^ length s" and "digit_val x < 10"
    by (simp_all add: digit_val_less)
  then have "10 * dec_val s + digit_val x < 10 * 10 ^ length s" by linarith
  then show ?case by (simp add: dec_val_def)
qed

lemma dec_val_single [simp]: "dec_val [ch] = digit_val ch"
  by (simp add: dec_val_def)

lemma dec_val_zeros [simp]: "dec_val (replicate k CHR ''0'' @ s) = dec_val s"
  by (induction k) (simp_all add: dec_val_append dec_val_def)

lemma dec_digits_props:
  "list_all is_digit (dec_digits n) \<and> dec_val (dec_digits n) = n \<and> dec_digits n \<noteq> []"
proof (induction n rule: dec_digits.induct)
  case (1 n)
  show ?case
  proof (cases "n < 10")
    case True
    then show ?thesis by (simp add: dec_digits.simps[of n] dec_val_def)
  next
    case False
    with "1.IH" show ?thesis
      by (simp add: dec_digits.simps[of n] dec_val_append)
  qed
qed

lemma length_dec_digits: "n < 10 ^ w \<Longrightarrow> 0 < w \<Longrightarrow> length (dec_digits n) \<le> w"
proof (induction n arbitrary: w rule: dec_digits.induct)
  case (1 n)
  show ?case
  proof (cases "n < 10")
    case True
    with "1.prems" show ?thesis by (subst dec_digits.simps) simp
  next
    case False
    obtain w' where w: "w = Suc w'" using "1.prems"(2) by (cases w) auto
    with "1.prems"(1) have "n div 10 < 10 ^ w'" by (simp add: less_mult_imp_div_less)
    moreover from False "1.prems"(1) w have "0 < w'" by (cases w') auto
    ultimately have "length (dec_digits (n div 10)) \<le> w'" using "1.IH" False by blast
    with False w show ?thesis by (subst dec_digits.simps) simp
  qed
qed

lemma append_int_nat:
  assumes "n < 10 ^ w" and "0 < w"
  shows "length (append_int (int n) w) = w" and "list_all is_digit (append_int (int n) w)"
    and "dec_val (append_int (int n) w) = n"
  using assms dec_digits_props[of n] length_dec_digits[of n w]
  by (auto simp: append_int_def list_all_iff Let_def)

lemma take_dec_val:
  assumes "list_all is_digit t" and "n \<le> length t"
  shows "dec_val (take n t) = dec_val t div 10 ^ (length t - n)"
proof -
  have t: "t = take n t @ drop n t" by simp
  have "dec_val (drop n t) < 10 ^ length (drop n t)"
    using assms(1) by (intro dec_val_less) (auto simp: list_all_iff dest: in_set_dropD)
  then have "dec_val t div 10 ^ (length t - n) = dec_val (take n t)"
    by (subst t, simp only: dec_val_append) (simp add: assms)
  then show ?thesis by simp
qed

subsection \<open>Reading numbers back\<close>

lemma getnum_two_digits:
  assumes "length t = 2" and "list_all is_digit t"
  shows "getnum (t @ r) f = Inr (int (dec_val t), r)"
proof -
  obtain a b where t: "t = [a, b]"
    using assms(1) by (metis One_nat_def Suc_1 length_0_conv length_Suc_conv)
  with assms(2) show ?thesis by (simp add: getnum_def dec_val_def)
qed

lemma go_atoi_digits: "list_all is_digit t \<Longrightarrow> go_atoi t = Inr (int (dec_val t))"
  by (cases t) (auto simp: go_atoi_def is_digit_def)


lemma days_in_le: "days_in m y \<le> 31"
  by (simp add: days_in_def)

lemma getnum_pad2: "n < 100 \<Longrightarrow> getnum (append_int (int n) 2 @ r) f = Inr (int n, r)"
  using append_int_nat[of n 2] getnum_two_digits[of "append_int (int n) 2" r f] by simp

lemma year_digits:
  assumes "0 \<le> y" and "y < 10000"
  shows "length (append_int y 4) = 4" and "list_all is_digit (append_int y 4)"
    and "int (dec_val (append_int y 4)) = y"
proof -
  have y: "y = int (nat y)" and n: "nat y < 10 ^ 4" using assms by simp_all
  show "length (append_int y 4) = 4" using append_int_nat(1)[OF n] y by simp
  show "list_all is_digit (append_int y 4)" using append_int_nat(2)[OF n] y by simp
  show "int (dec_val (append_int y 4)) = y" using append_int_nat(3)[OF n] y by simp
qed

lemma frac_digits:
  assumes "ns < 1000000000" and "n \<le> 9"
  shows "length (take n (append_int (int ns) 9)) = n"
    and "list_all is_digit (take n (append_int (int ns) 9))"
    and "dec_val (take n (append_int (int ns) 9)) = ns div 10 ^ (9 - n)"
proof -
  have ns: "ns < 10 ^ 9" using assms(1) by simp
  note a = append_int_nat[OF ns, simplified]
  show "length (take n (append_int (int ns) 9)) = n" using a assms(2) by simp
  show "list_all is_digit (take n (append_int (int ns) 9))"
    using a by (auto simp: list_all_iff dest: in_set_takeD)
  show "dec_val (take n (append_int (int ns) 9)) = ns div 10 ^ (9 - n)"
    using a assms(2) by (simp add: take_dec_val)
qed

lemma parse_fmt_chunk:
  assumes c: "valid_civil c" "0 \<le> year c" "year c < 10000" and k: "chunk_rt k"
  shows "parse_chunk k (fmt_chunk c k @ r) acc = Inr (r, keep_chunk c acc k)"
proof (cases k)
  case StdLongYear
  let ?t = "append_int (year c) 4"
  have t: "length ?t = 4" "list_all is_digit ?t" "int (dec_val ?t) = year c"
    using year_digits[OF c(2,3)] by simp_all
  then have ne: "?t \<noteq> []" by auto
  then have "hd (?t @ r) = hd ?t" and "hd ?t \<in> set ?t" by simp_all
  with t(2) have "is_digit (hd (?t @ r))" by (simp add: list_all_iff)
  with t ne show ?thesis by (simp add: StdLongYear go_atoi_digits)
next
  case (StdFracSecond0 n)
  let ?t = "take n (append_int (int (nanosecond c)) 9)"
  have ns: "nanosecond c < 1000000000" and n: "n \<le> 9"
    using c(1) k StdFracSecond0 by (simp_all add: valid_civil_def)
  note t = frac_digits[OF ns n]
  have "take n (drop 1 (CHR ''.'' # ?t @ r)) = ?t" using t(1) by simp
  with t show ?thesis by (simp add: StdFracSecond0 go_atoi_digits)
next
  case StdZeroDay
  have "day c < 100" using c(1) days_in_le[of "month c" "year c"] by (simp add: valid_civil_def)
  then show ?thesis by (simp add: StdZeroDay getnum_pad2)
qed (use c in \<open>simp_all add: getnum_pad2 valid_civil_def\<close>)


lemma parse_fmt_chunks:
  assumes "valid_civil c" "0 \<le> year c" "year c < 10000" and "list_all chunk_rt l"
  shows "parse_chunks l (time_format l c @ r) acc = Inr (r, foldl (keep_chunk c) acc l)"
  using assms(4)
proof (induction l arbitrary: acc)
  case Nil
  then show ?case by (simp add: time_format_def)
next
  case (Cons k l)
  then have "parse_chunk k (fmt_chunk c k @ time_format l c @ r) acc
               = Inr (time_format l c @ r, keep_chunk c acc k)"
    using parse_fmt_chunk[OF assms(1-3)] by simp
  with Cons show ?case by (simp add: time_format_def)
qed

lemma keep_chunk_date [simp]:
  "year (keep_chunk c acc k) = (if k = StdLongYear then year c else year acc)"
  "month (keep_chunk c acc k) = (if k = StdZeroMonth then month c else month acc)"
  "day (keep_chunk c acc k) = (if k = StdZeroDay then day c else day acc)"
  by (cases k; simp)+

lemma foldl_keep_date:
  "year (foldl (keep_chunk c) acc l) = (if StdLongYear \<in> set l then year c else year acc)"
  "month (foldl (keep_chunk c) acc l) = (if StdZeroMonth \<in> set l then month c else month acc)"
  "day (foldl (keep_chunk c) acc l) = (if StdZeroDay \<in> set l then day c else day acc)"
  by (induction l arbitrary: acc) auto

theorem time_parse_format:
  assumes "valid_civil c" "0 \<le> year c" "year c < 10000" "list_all chunk_rt l"
    and "StdLongYear \<in> set l" "StdZeroMonth \<in> set l" "StdZeroDay \<in> set l"
  shows "time_parse l (time_format l c) = Inr (trunc_layout l c)"
proof -
  have "parse_chunks l (time_format l c @ []) civil0 = Inr ([], trunc_layout l c)"
    unfolding trunc_layout_def by (rule parse_fmt_chunks[OF assms(1-4)])
  moreover have "year (trunc_layout l c) = year c" "month (trunc_layout l c) = month c"
    "day (trunc_layout l c) = day c"
    using assms(5-7) by (simp_all add: trunc_layout_def foldl_keep_date)
  ultimately show ?thesis using assms(1) by (simp add: time_parse_def valid_civil_def)
qed

lemma length_fmt_chunk:
  assumes "valid_civil c" "0 \<le> year c" "year c < 10000" "chunk_rt k"
  shows "length (fmt_chunk c k) = chunk_width k"
proof (cases k)
  case StdLongYear
  then show ?thesis using year_digits(1)[OF assms(2,3)] by simp
next
  case (StdFracSecond0 n)
  then show ?thesis using assms frac_digits(1)[of "nanosecond c" n] by (simp add: valid_civil_def)
next
  case StdZeroDay
  have "day c < 100" using assms(1) days_in_le[of "month c" "year c"] by (simp add: valid_civil_def)
  then show ?thesis using StdZeroDay append_int_nat(1)[of "day c" 2] by simp
qed (use assms append_int_nat(1) in \<open>simp_all add: valid_civil_def\<close>)

lemma length_time_format:
  assumes "valid_civil c" "0 \<le> year c" "year c < 10000" "list_all chunk_rt l"
  shows "length (time_format l c) = sum_list (map chunk_width l)"
  using assms(4) by (induction l) (simp_all add: time_format_def length_fmt_chunk[OF assms(1-3)])

subsection \<open>The program's layouts\<close>

text \<open>The chunk lists are what Go's chunker makes of the source's layout strings.\<close>

lemma layout_chunks_source:
  "layout_chunks ''2006-01-02'' = Some layout_day"
  "layout_chunks ''2006-01-02-15'' = Some layout_hour"
  "layout_chunks ''2006-01-02-15-04'' = Some layout_minute"
  "layout_chunks ''2006-01-02-15-04-05'' = Some layout_second"
  "layout_chunks ''2006-01-02 15:04:05.000'' = Some layout_stamp"
  by (simp_all add: next_chunk_def may_start_std_def is_digit_def layout_day_def layout_hour_def
      layout_minute_def layout_second_def layout_stamp_def)

lemmas layout_defs = layout_day_def layout_hour_def layout_minute_def layout_second_def

lemma codec_layouts_rt:
  assumes "l \<in> {layout_day, layout_hour, layout_minute, layout_second}"
  shows "list_all chunk_rt l" and "StdLongYear \<in> set l" and "StdZeroMonth \<in> set l"
    and "StdZeroDay \<in> set l"
  using assms by (auto simp: layout_defs)

subsection \<open>Printed characters\<close>

lemma append_int_digits: "0 \<le> x \<Longrightarrow> list_all is_digit (append_int x w)"
  using dec_digits_props[of "nat x"] by (auto simp: append_int_def Let_def list_all_iff)

lemma fmt_chunk_no_slash:
  assumes "0 \<le> year c" and "k \<noteq> StdLit CHR ''/''"
  shows "CHR ''/'' \<notin> set (fmt_chunk c k)"
proof -
  have nd: "\<not> is_digit CHR ''/''" by (simp add: is_digit_def)
  have "\<And>x w. 0 \<le> x \<Longrightarrow> CHR ''/'' \<notin> set (append_int x w)"
    using nd append_int_digits by (fastforce simp: list_all_iff)
  then show ?thesis using assms by (cases k) (auto dest: in_set_takeD)
qed

lemma time_format_no_slash:
  "0 \<le> year c \<Longrightarrow> StdLit CHR ''/'' \<notin> set l \<Longrightarrow> CHR ''/'' \<notin> set (time_format l c)"
  by (induction l) (auto simp: time_format_def fmt_chunk_no_slash)

end
