(* ===== verification/AsyncLog.thy ===== *)
theory AsyncLog
  imports GoTime "HOL-Library.Sublist"
begin

text \<open>
  The asynchronous dispatcher \<open>asyncLog\<close> of \<open>midaslog/asynclog.go\<close>.  Client
  goroutines call \<open>Write\<close> and \<open>StopAndReset\<close> under the dispatcher's mutex;
  one goroutine, \<open>asyncLogRun\<close>, receives from the buffered channel \<open>msgCh\<close>
  and from the one-slot channel \<open>stopCh\<close>, with Go's \<open>select\<close> choosing at
  random when both are ready.  The writers behind the route are a parameter:
  a sink state \<open>'s\<close> with \<open>deliver k p t\<close> for \<open>WriteWithTime(p, t)\<close> on
  writer \<open>k\<close> and \<open>close k\<close> for its \<open>Close()\<close>.

  The system is a step relation: each event is one atomic step of one
  goroutine, enabled or blocked (\<open>None\<close>) in the current state; a blocked
  \<open>Write\<close> on a full channel holds the mutex, so it is modelled as not yet
  taken.  The fields \<open>sent\<close> and \<open>dlv\<close> are history variables, not program
  state: the items accepted into \<open>msgCh\<close> and the items received from it.
\<close>

type_synonym level = int

text \<open>\<open>item\<close>.\<close>

record item =
  it_level :: level
  it_msg :: bytes
  it_time :: civil

text \<open>
  \<open>asyncLog\<close>: the route (a Go map, as an association list), the channel
  contents (\<open>None\<close> once \<open>msgCh\<close> is set to \<open>nil\<close>), its capacity, the number
  of tokens in \<open>stopCh\<close> (\<open>None\<close> for \<open>nil\<close>), whether \<open>asyncLogRun\<close> is still
  running (the wait group's count), and how far a \<open>StopAndReset\<close> holding the
  mutex has come: 0 when no call holds it, 1 before its send on \<open>stopCh\<close>,
  2 while it waits in \<open>wg.Wait()\<close>.
\<close>

record 'k alog =
  route :: "(level \<times> 'k) list"
  msg_ch :: "item list option"
  ch_cap :: nat
  stop_ch :: "nat option"
  running :: bool
  reset_phase :: nat
  sent :: "item list"
  dlv :: "item list"

text \<open>\<open>NewAsyncLog(route, msgChCap)\<close>: the goroutine is started.\<close>

definition new_async_log :: "(level \<times> 'k) list \<Rightarrow> nat \<Rightarrow> 'k alog" where
  "new_async_log r cap =
     \<lparr>route = r, msg_ch = Some [], ch_cap = cap, stop_ch = Some 0, running = True,
      reset_phase = 0, sent = [], dlv = []\<rparr>"

text \<open>
  \<open>Write(level, p, now)\<close>: it takes the mutex (so it waits while a
  \<open>StopAndReset\<close> holds it), sends the item when \<open>msgCh\<close> is not \<open>nil\<close>
  (waiting for room), and returns \<open>len(p), nil\<close> in every case.
\<close>

definition async_write :: "'k alog \<Rightarrow> level \<Rightarrow> bytes \<Rightarrow> civil \<Rightarrow> ('k alog \<times> nat \<times> err option) option" where
  "async_write a l p now =
     (if reset_phase a \<noteq> 0 then None
      else case msg_ch a of
        None \<Rightarrow> Some (a, length p, None)
      | Some q \<Rightarrow>
          if length q < ch_cap a
          then (let it = \<lparr>it_level = l, it_msg = p, it_time = now\<rparr> in
                Some (a\<lparr>msg_ch := Some (q @ [it]), sent := sent a @ [it]\<rparr>, length p, None))
          else None)"

text \<open>
  The two branches of the \<open>select\<close> in \<open>asyncLogRun\<close>.  An item is written
  with \<open>WriteWithTime\<close> to the writer routed for its level, and dropped when
  there is none.  The stop token makes the goroutine close every routed
  writer (in the route's order; Go's map order is random, and \<open>Close\<close> of
  distinct writers commute) and return, which releases \<open>wg.Wait()\<close>.
\<close>

definition recv_item ::
  "('k \<Rightarrow> bytes \<Rightarrow> civil \<Rightarrow> 's \<Rightarrow> 's) \<Rightarrow> 'k alog \<times> 's \<Rightarrow> ('k alog \<times> 's) option" where
  "recv_item deliver st =
     (case st of (a, s) \<Rightarrow>
        if \<not> running a then None
        else case msg_ch a of
          Some (it # q) \<Rightarrow>
            Some (a\<lparr>msg_ch := Some q, dlv := dlv a @ [it]\<rparr>,
                  case map_of (route a) (it_level it) of
                    Some k \<Rightarrow> deliver k (it_msg it) (it_time it) s
                  | None \<Rightarrow> s)
        | _ \<Rightarrow> None)"

definition close_route :: "('k \<Rightarrow> 's \<Rightarrow> 's) \<Rightarrow> (level \<times> 'k) list \<Rightarrow> 's \<Rightarrow> 's" where
  "close_route close r s = fold (\<lambda>(l, k). close k) r s"

definition recv_stop :: "('k \<Rightarrow> 's \<Rightarrow> 's) \<Rightarrow> 'k alog \<times> 's \<Rightarrow> ('k alog \<times> 's) option" where
  "recv_stop close st =
     (case st of (a, s) \<Rightarrow>
        if \<not> running a then None
        else case stop_ch a of
          Some (Suc n) \<Rightarrow> Some (a\<lparr>stop_ch := Some n, running := False\<rparr>, close_route close (route a) s)
        | _ \<Rightarrow> None)"

text \<open>
  \<open>StopAndReset()\<close> in its three atomic parts: taking the mutex; the send on
  \<open>stopCh\<close> (blocked while the slot is full, and for ever on a \<open>nil\<close>
  channel); and, once the goroutine has returned, closing both channels and
  setting them, the wait group and the route to \<open>nil\<close>, then unlocking.
  Items still buffered in \<open>msgCh\<close> are dropped with it.
\<close>

definition reset_lock :: "'k alog \<Rightarrow> 'k alog option" where
  "reset_lock a = (if reset_phase a = 0 then Some (a\<lparr>reset_phase := 1\<rparr>) else None)"

definition reset_send :: "'k alog \<Rightarrow> 'k alog option" where
  "reset_send a =
     (if reset_phase a \<noteq> 1 then None
      else case stop_ch a of
        Some 0 \<Rightarrow> Some (a\<lparr>stop_ch := Some 1, reset_phase := 2\<rparr>)
      | _ \<Rightarrow> None)"

definition reset_finish :: "'k alog \<Rightarrow> 'k alog option" where
  "reset_finish a =
     (if reset_phase a = 2 \<and> \<not> running a
      then Some (a\<lparr>msg_ch := None, stop_ch := None, route := [], reset_phase := 0\<rparr>)
      else None)"

text \<open>The events of the system and one step of it.\<close>

datatype aevent =
    EvWrite level bytes civil
  | EvResetLock
  | EvResetSend
  | EvResetFinish
  | EvRecvItem
  | EvRecvStop

fun alog_exec ::
  "('k \<Rightarrow> bytes \<Rightarrow> civil \<Rightarrow> 's \<Rightarrow> 's) \<Rightarrow> ('k \<Rightarrow> 's \<Rightarrow> 's) \<Rightarrow> aevent \<Rightarrow> 'k alog \<times> 's \<Rightarrow> ('k alog \<times> 's) option" where
  "alog_exec deliver close (EvWrite l p t) (a, s) = map_option (\<lambda>(a', _). (a', s)) (async_write a l p t)"
| "alog_exec deliver close EvResetLock (a, s) = map_option (\<lambda>a'. (a', s)) (reset_lock a)"
| "alog_exec deliver close EvResetSend (a, s) = map_option (\<lambda>a'. (a', s)) (reset_send a)"
| "alog_exec deliver close EvResetFinish (a, s) = map_option (\<lambda>a'. (a', s)) (reset_finish a)"
| "alog_exec deliver close EvRecvItem st = recv_item deliver st"
| "alog_exec deliver close EvRecvStop st = recv_stop close st"

text \<open>A run of events from a state; \<open>None\<close> when some event is not enabled.\<close>

fun alog_run ::
  "('k \<Rightarrow> bytes \<Rightarrow> civil \<Rightarrow> 's \<Rightarrow> 's) \<Rightarrow> ('k \<Rightarrow> 's \<Rightarrow> 's) \<Rightarrow> aevent list \<Rightarrow> 'k alog \<times> 's \<Rightarrow> ('k alog \<times> 's) option" where
  "alog_run deliver close [] st = Some st"
| "alog_run deliver close (e # es) st =
     (case alog_exec deliver close e st of None \<Rightarrow> None | Some st' \<Rightarrow> alog_run deliver close es st')"

text \<open>The states reachable from a state.\<close>

inductive areach ::
  "('k \<Rightarrow> bytes \<Rightarrow> civil \<Rightarrow> 's \<Rightarrow> 's) \<Rightarrow> ('k \<Rightarrow> 's \<Rightarrow> 's) \<Rightarrow> 'k alog \<times> 's \<Rightarrow> 'k alog \<times> 's \<Rightarrow> bool"
  for deliver close st0 where
  areach_refl: "areach deliver close st0 st0"
| areach_step: "areach deliver close st0 st \<Longrightarrow> alog_exec deliver close e st = Some st' \<Longrightarrow>
                areach deliver close st0 st'"

text \<open>
  The dispatcher's invariant: the channel holds at most its capacity, the
  stop slot at most one token; the history of accepted items is the
  received ones followed by the buffered ones (nothing is lost, reordered
  or duplicated between \<open>Write\<close> and the goroutine while the channel lives);
  the phases agree with the goroutine and the channels.
\<close>

definition alog_inv :: "'k alog \<Rightarrow> bool" where
  "alog_inv a \<longleftrightarrow>
     (case msg_ch a of
        Some q \<Rightarrow> length q \<le> ch_cap a \<and> sent a = dlv a @ q \<and>
                  (case reset_phase a of
                     0 \<Rightarrow> stop_ch a = Some 0 \<and> running a
                   | Suc 0 \<Rightarrow> stop_ch a = Some 0 \<and> running a
                   | _ \<Rightarrow> (stop_ch a = Some 1 \<and> running a) \<or> (stop_ch a = Some 0 \<and> \<not> running a))
      | None \<Rightarrow> \<not> running a \<and> stop_ch a = None \<and> reset_phase a \<le> 1 \<and> prefix (dlv a) (sent a))"

text \<open>
  An observing sink: the writers record what they are given, in order, and
  closing them changes nothing.  \<open>routed r its\<close> is what a route \<open>r\<close> makes
  of a sequence of items: each item whose level is routed, paired with its
  writer.
\<close>

definition rec_deliver :: "'k \<Rightarrow> bytes \<Rightarrow> civil \<Rightarrow> ('k \<times> bytes \<times> civil) list \<Rightarrow> ('k \<times> bytes \<times> civil) list" where
  "rec_deliver k p t s = s @ [(k, p, t)]"

definition rec_close :: "'k \<Rightarrow> ('k \<times> bytes \<times> civil) list \<Rightarrow> ('k \<times> bytes \<times> civil) list" where
  "rec_close k s = s"

definition routed :: "(level \<times> 'k) list \<Rightarrow> item list \<Rightarrow> ('k \<times> bytes \<times> civil) list" where
  "routed r its = concat (map (\<lambda>it. case map_of r (it_level it) of
                                      Some k \<Rightarrow> [(k, it_msg it, it_time it)] | None \<Rightarrow> []) its)"

subsection \<open>Example inputs\<close>

text \<open>
  A dispatcher routing level 6 (\<open>LEVEL_INFO\<close>) to writer 0 with a channel of
  capacity 2, after an info and an error record were written and the
  goroutine received the first; and the dispatcher after a write followed
  by a completed \<open>StopAndReset\<close> in which the goroutine took the stop token
  first.
\<close>

definition t_log :: civil where
  "t_log = \<lparr>year = 2019, month = 7, day = 12, hour = 9, minute = 5, second = 3, nanosecond = 0\<rparr>"

definition trace1 :: "aevent list" where
  "trace1 = [EvWrite 6 [1] t_log, EvWrite 3 [2] t_log, EvRecvItem]"

definition st1 :: "nat alog \<times> (nat \<times> bytes \<times> civil) list" where
  "st1 = the (alog_run rec_deliver rec_close trace1 (new_async_log [(6, 0)] 2, []))"

definition trace2 :: "aevent list" where
  "trace2 = [EvWrite 6 [1] t_log, EvResetLock, EvResetSend, EvRecvStop, EvResetFinish]"

definition st2 :: "nat alog \<times> (nat \<times> bytes \<times> civil) list" where
  "st2 = the (alog_run rec_deliver rec_close trace2 (new_async_log [(6, 0)] 2, []))"

subsection \<open>The invariant\<close>


lemma alog_inv_init: "alog_inv (new_async_log r cap)"
  by (simp add: alog_inv_def new_async_log_def)

lemma alog_exec_inv:
  assumes "alog_inv a" "alog_exec deliver close e (a, s) = Some (a', s')"
  shows "alog_inv a'"
proof (cases e)
  case (EvWrite l p t)
  then show ?thesis using assms
    by (auto simp: alog_inv_def async_write_def Let_def split: option.splits if_splits nat.splits)
next
  case EvResetLock
  then show ?thesis using assms
    by (auto simp: alog_inv_def reset_lock_def split: option.splits if_splits nat.splits)
next
  case EvResetSend
  then show ?thesis using assms
    by (auto simp: alog_inv_def reset_send_def split: option.splits if_splits nat.splits)
next
  case EvResetFinish
  then show ?thesis using assms
    by (auto simp: alog_inv_def reset_finish_def split: option.splits if_splits nat.splits)
next
  case EvRecvItem
  then show ?thesis using assms
    by (auto simp: alog_inv_def recv_item_def split: option.splits if_splits nat.splits list.splits)
next
  case EvRecvStop
  then show ?thesis using assms
    by (auto simp: alog_inv_def recv_stop_def split: option.splits if_splits nat.splits)
qed

lemma areach_alog_inv:
  "areach deliver close (new_async_log r cap, s0) st \<Longrightarrow> alog_inv (fst st)"
proof (induction rule: areach.induct)
  case areach_refl
  then show ?case by (simp add: alog_inv_init)
next
  case (areach_step st e st')
  then show ?case using alog_exec_inv[of "fst st" deliver close e "snd st" "fst st'" "snd st'"] by simp
qed

lemma close_route_rec [simp]: "close_route rec_close r s = s"
  by (induction r arbitrary: s) (auto simp: close_route_def rec_close_def)

lemma areach_routed:
  "areach rec_deliver rec_close (new_async_log r cap, []) st \<Longrightarrow>
   (route (fst st) = r \<or> \<not> running (fst st)) \<and> snd st = routed r (dlv (fst st))"
proof (induction rule: areach.induct)
  case areach_refl
  then show ?case by (simp add: new_async_log_def routed_def)
next
  case (areach_step st e st')
  obtain a s where st: "st = (a, s)" by fastforce
  show ?case using areach_step st
    by (cases e) (auto simp: async_write_def reset_lock_def reset_send_def reset_finish_def recv_item_def
                       recv_stop_def rec_deliver_def routed_def Let_def
                       split: option.splits if_splits nat.splits list.splits)
qed

text \<open>
  C10: in every state the dispatcher reaches, the goroutine has
  received a prefix of the items \<open>Write\<close> accepted, in the order they were
  accepted, and while the channel lives the rest are exactly the buffered
  items, never more than the channel's capacity.
\<close>

theorem alog_fifo:
  assumes "areach deliver close (new_async_log r cap, s0) (a, s)"
  shows "prefix (dlv a) (sent a) \<and> (\<forall>q. msg_ch a = Some q \<longrightarrow> sent a = dlv a @ q \<and> length q \<le> ch_cap a)"
  using areach_alog_inv[OF assms]
  by (auto simp: alog_inv_def split: option.splits)

text \<open>
  C11: the writers are given exactly the received
  items whose level has a route, each to its level's writer, in the order
  received; items of unrouted levels are dropped.
\<close>

theorem alog_delivers_routed:
  "areach rec_deliver rec_close (new_async_log r cap, []) (a, s) \<Longrightarrow> s = routed r (dlv a)"
  using areach_routed by fastforce

text \<open>
  C20: a record accepted by \<open>Write\<close> (which reports
  success) is lost when \<open>StopAndReset\<close> follows and the goroutine's
  \<open>select\<close> takes the stop token first: the writers are closed without
  ever receiving it.
\<close>

theorem stop_drops_accepted:
  assumes "0 < cap"
  shows "alog_run deliver close [EvWrite l p t, EvResetLock, EvResetSend, EvRecvStop, EvResetFinish]
           (new_async_log r cap, s0) =
         Some ((new_async_log r cap)\<lparr>route := [], msg_ch := None, stop_ch := None, running := False,
                 sent := [\<lparr>it_level = l, it_msg = p, it_time = t\<rparr>]\<rparr>, close_route close r s0)"
  using assms by (simp add: new_async_log_def async_write_def reset_lock_def reset_send_def recv_stop_def
                           reset_finish_def Let_def)

text \<open>
  C21: once a \<open>StopAndReset\<close> has completed, a
  second call that takes the mutex blocks for ever on the \<open>nil\<close> stop
  channel, and no goroutine of the dispatcher can take a step again
  (every later \<open>Write\<close> waits for the mutex).
\<close>

theorem second_reset_deadlocks:
  assumes "areach deliver close (new_async_log r cap, s0) (a, s)" "msg_ch a = None" "reset_lock a = Some a'"
  shows "alog_exec deliver close e (a', s) = None"
proof -
  have "\<not> running a" "stop_ch a = None" using areach_alog_inv[OF assms(1)] assms(2) by (auto simp: alog_inv_def)
  then show ?thesis using assms(3)
    by (cases e) (auto simp: reset_lock_def async_write_def reset_send_def reset_finish_def recv_item_def
                             recv_stop_def split: if_splits)
qed

text \<open>
  C28: after \<open>StopAndReset\<close>, \<open>Write\<close> drops the
  record and still reports \<open>len(p), nil\<close>, leaving the dispatcher as it was.
\<close>

theorem write_after_reset_dropped:
  "msg_ch a = None \<Longrightarrow> reset_phase a = 0 \<Longrightarrow> async_write a l p t = Some (a, length p, None)"
  by (simp add: async_write_def)

text \<open>
  C22: from any reachable state of a live dispatcher,
  \<open>StopAndReset\<close> can complete (the goroutine takes the stop token): the
  writers are closed and both channels and the route become \<open>nil\<close>.
\<close>

theorem reset_completes:
  assumes "areach deliver close (new_async_log r cap, s0) (a, s)" "reset_phase a = 0" "msg_ch a = Some q"
  shows "alog_run deliver close [EvResetLock, EvResetSend, EvRecvStop, EvResetFinish] (a, s) =
           Some (a\<lparr>route := [], msg_ch := None, stop_ch := None, running := False\<rparr>,
                 close_route close (route a) s)"
proof -
  have "stop_ch a = Some 0" "running a" using areach_alog_inv[OF assms(1)] assms(2,3) by (auto simp: alog_inv_def)
  then show ?thesis using assms(2)
    by (cases a) (simp add: reset_lock_def reset_send_def recv_stop_def reset_finish_def)
qed


lemma alog_run_areach:
  "alog_run deliver close es st = Some st' \<Longrightarrow> areach deliver close st0 st \<Longrightarrow> areach deliver close st0 st'"
proof (induction es arbitrary: st)
  case (Cons e es)
  then show ?case by (auto split: option.splits intro: areach_step)
qed simp

lemma st1_run: "alog_run rec_deliver rec_close trace1 (new_async_log [(6, 0)] 2, []) = Some st1"
  and st1_eval: "st1 = ((new_async_log [(6, 0)] 2)\<lparr>msg_ch := Some [\<lparr>it_level = 3, it_msg = [2], it_time = t_log\<rparr>],
      sent := [\<lparr>it_level = 6, it_msg = [1], it_time = t_log\<rparr>, \<lparr>it_level = 3, it_msg = [2], it_time = t_log\<rparr>],
      dlv := [\<lparr>it_level = 6, it_msg = [1], it_time = t_log\<rparr>]\<rparr>, [(0, [1], t_log)])"
  by (simp_all add: st1_def trace1_def new_async_log_def async_write_def recv_item_def rec_deliver_def Let_def)

lemma st2_run: "alog_run rec_deliver rec_close trace2 (new_async_log [(6, 0)] 2, []) = Some st2"
  and st2_eval: "st2 = ((new_async_log [(6, 0)] 2)\<lparr>route := [], msg_ch := None, stop_ch := None, running := False,
      sent := [\<lparr>it_level = 6, it_msg = [1], it_time = t_log\<rparr>]\<rparr>, [])"
  by (simp_all add: st2_def trace2_def new_async_log_def async_write_def reset_lock_def reset_send_def
                    recv_stop_def reset_finish_def Let_def)

lemma st_reach:
  "areach rec_deliver rec_close (new_async_log [(6, 0)] 2, []) st1"
  "areach rec_deliver rec_close (new_async_log [(6, 0)] 2, []) st2"
  by (rule alog_run_areach[OF st1_run areach_refl], rule alog_run_areach[OF st2_run areach_refl])

theorem alog_fifo_witness:
  "prefix (dlv (fst st1)) (sent (fst st1)) \<and>
   sent (fst st1) = dlv (fst st1) @ [\<lparr>it_level = 3, it_msg = [2], it_time = t_log\<rparr>] \<and>
   length [\<lparr>it_level = 3, it_msg = [2], it_time = t_log\<rparr>] \<le> ch_cap (fst st1)"
proof -
  have "msg_ch (fst st1) = Some [\<lparr>it_level = 3, it_msg = [2], it_time = t_log\<rparr>]"
    by (simp add: st1_eval new_async_log_def)
  then show ?thesis
    using alog_fifo[of rec_deliver rec_close "[(6, 0)]" 2 "[]" "fst st1" "snd st1"] st_reach(1) by simp
qed

theorem alog_delivers_routed_witness: "snd st1 = routed [(6, 0)] (dlv (fst st1)) \<and> snd st1 = [(0, [1], t_log)]"
proof -
  have "snd st1 = [(0, [1], t_log)]" by (simp add: st1_eval)
  moreover have "areach rec_deliver rec_close (new_async_log [(6, 0)] 2, []) (fst st1, snd st1)"
    using st_reach(1) by simp
  ultimately show ?thesis using alog_delivers_routed by metis
qed

theorem stop_drops_accepted_witness:
  "alog_run rec_deliver rec_close [EvWrite 6 [1] t_log, EvResetLock, EvResetSend, EvRecvStop, EvResetFinish]
     (new_async_log [(6, 0::nat)] 1, []) =
   Some ((new_async_log [(6, 0)] 1)\<lparr>route := [], msg_ch := None, stop_ch := None, running := False,
           sent := [\<lparr>it_level = 6, it_msg = [1], it_time = t_log\<rparr>]\<rparr>, [])"
  using stop_drops_accepted[of 1 rec_deliver rec_close 6 "[1]" t_log "[(6, 0::nat)]" "[]"] by simp

theorem second_reset_deadlocks_witness:
  "list_all (\<lambda>e. alog_exec rec_deliver rec_close e ((fst st2)\<lparr>reset_phase := 1\<rparr>, snd st2) = None)
     [EvWrite 6 [7] t_log, EvResetLock, EvResetSend, EvResetFinish, EvRecvItem, EvRecvStop]"
proof -
  have "msg_ch (fst st2) = None" "reset_lock (fst st2) = Some ((fst st2)\<lparr>reset_phase := 1\<rparr>)"
    by (simp_all add: st2_eval reset_lock_def new_async_log_def)
  then show ?thesis using second_reset_deadlocks[of rec_deliver rec_close "[(6, 0)]" 2 "[]" "fst st2" "snd st2"]
      st_reach(2) by simp
qed

theorem write_after_reset_dropped_witness:
  "async_write (fst st2) 6 [7] t_log = Some (fst st2, 1, None)"
proof -
  have "msg_ch (fst st2) = None" "reset_phase (fst st2) = 0" by (simp_all add: st2_eval new_async_log_def)
  then show ?thesis using write_after_reset_dropped[of "fst st2" 6 "[7]" t_log] by simp
qed

theorem reset_completes_witness:
  "alog_run rec_deliver rec_close [EvResetLock, EvResetSend, EvRecvStop, EvResetFinish] st1 =
     Some ((fst st1)\<lparr>route := [], msg_ch := None, stop_ch := None, running := False\<rparr>, snd st1)"
proof -
  have "reset_phase (fst st1) = 0" "msg_ch (fst st1) = Some [\<lparr>it_level = 3, it_msg = [2], it_time = t_log\<rparr>]"
    by (simp_all add: st1_eval new_async_log_def)
  then show ?thesis using reset_completes[of rec_deliver rec_close "[(6, 0)]" 2 "[]" "fst st1" "snd st1"] st_reach(1)
    by simp
qed

subsection \<open>Runs and the receive loop\<close>


lemma alog_run_append:
  "alog_run deliver close (es @ es') st =
     (case alog_run deliver close es st of None \<Rightarrow> None | Some st' \<Rightarrow> alog_run deliver close es' st')"
  by (induction es arbitrary: st) (auto split: option.splits)

lemma recv_drain:
  "running a \<Longrightarrow> msg_ch a = Some q \<Longrightarrow>
   \<exists>s'. alog_run deliver close (replicate (length q) EvRecvItem) (a, s) =
          Some (a\<lparr>msg_ch := Some [], dlv := dlv a @ q\<rparr>, s')"
proof (induction q arbitrary: a s)
  case Nil
  then show ?case by (cases a) simp
next
  case (Cons it q)
  let ?a = "a\<lparr>msg_ch := Some q, dlv := dlv a @ [it]\<rparr>"
  obtain s1 where r: "recv_item deliver (a, s) = Some (?a, s1)"
    using Cons.prems by (simp add: recv_item_def)
  obtain s' where "alog_run deliver close (replicate (length q) EvRecvItem) (?a, s1) =
      Some (?a\<lparr>msg_ch := Some [], dlv := dlv ?a @ q\<rparr>, s')"
    using Cons.IH[of ?a s1] Cons.prems by auto
  then show ?case using r by simp
qed

text \<open>
  The inductive reachability relation and the
  executable runs agree: a state is reachable exactly when some sequence
  of events, each enabled in turn, leads to it.
\<close>

theorem areach_iff_run:
  "areach deliver close st0 st \<longleftrightarrow> (\<exists>es. alog_run deliver close es st0 = Some st)"
proof
  assume "areach deliver close st0 st"
  then show "\<exists>es. alog_run deliver close es st0 = Some st"
  proof (induction rule: areach.induct)
    case areach_refl
    have "alog_run deliver close [] st0 = Some st0" by simp
    then show ?case ..
  next
    case (areach_step st e st')
    then obtain es where "alog_run deliver close es st0 = Some st" by blast
    then have "alog_run deliver close (es @ [e]) st0 = Some st'"
      using areach_step.hyps(2) by (simp add: alog_run_append)
    then show ?case ..
  qed
next
  assume "\<exists>es. alog_run deliver close es st0 = Some st"
  then show "areach deliver close st0 st" using alog_run_areach areach_refl by blast
qed

text \<open>
  C23: in a reachable state of a live dispatcher, the
  receive loop of \<open>asyncLogRun\<close> empties the channel in exactly as many
  steps as items are buffered, receiving them in order.
\<close>

theorem drain_terminates:
  assumes "areach deliver close (new_async_log r cap, s0) (a, s)" "reset_phase a = 0" "msg_ch a = Some q"
  shows "\<exists>s'. alog_run deliver close (replicate (length q) EvRecvItem) (a, s) =
                Some (a\<lparr>msg_ch := Some [], dlv := dlv a @ q\<rparr>, s')"
proof -
  have "running a" using areach_alog_inv[OF assms(1)] assms(2,3) by (simp add: alog_inv_def)
  then show ?thesis by (rule recv_drain[OF _ assms(3)])
qed

theorem drain_terminates_witness:
  "\<exists>s'. alog_run rec_deliver rec_close [EvRecvItem] st1 =
     Some ((fst st1)\<lparr>msg_ch := Some [], dlv := dlv (fst st1) @ [\<lparr>it_level = 3, it_msg = [2], it_time = t_log\<rparr>]\<rparr>, s')"
proof -
  have h: "reset_phase (fst st1) = 0" "msg_ch (fst st1) = Some [\<lparr>it_level = 3, it_msg = [2], it_time = t_log\<rparr>]"
    by (simp_all add: st1_eval new_async_log_def)
  have "areach rec_deliver rec_close (new_async_log [(6, 0)] 2, []) (fst st1, snd st1)" using st_reach(1) by simp
  from drain_terminates[OF this h] show ?thesis by simp
qed
end
