(* ===== verification/Logger.thy ===== *)
theory Logger
  imports AsyncLog
begin

text \<open>
  The logging facade of \<open>midaslog\<close>: the levels and their names
  (\<open>base.go\<close>), the text formatter \<open>simpleFormater\<close> (\<open>simpleformater.go\<close>)
  and the level-filtering logger \<open>simpleLogger\<close> (\<open>simplelogger.go\<close>).  The
  logger's writer is any \<open>IWriter\<close>: a state \<open>'w\<close> with a \<open>Write\<close> step that
  may block (\<open>None\<close>), as \<open>async_write\<close> of the dispatcher does.  Go's
  \<open>fmt.Sprintf\<close> is modelled for string operands and the verbs \<open>%s\<close>,
  \<open>%v\<close> and \<open>%%\<close>, with its error forms for a verb that does not apply to a
  string, a missing operand, extra operands and a trailing \<open>%\<close>; flags,
  width, precision and the verbs \<open>%q\<close>, \<open>%x\<close>, \<open>%X\<close> are outside the model
  (the result is \<open>None\<close>).
\<close>

text \<open>The levels \<open>LEVEL_EMERGENCY\<close> to \<open>LEVEL_DEBUG\<close> (\<open>iota\<close> from 0) and \<open>LogLevels\<close>.\<close>

definition LEVEL_EMERGENCY :: level where "LEVEL_EMERGENCY = 0"
definition LEVEL_ALERT :: level where "LEVEL_ALERT = 1"
definition LEVEL_CRITICAL :: level where "LEVEL_CRITICAL = 2"
definition LEVEL_ERROR :: level where "LEVEL_ERROR = 3"
definition LEVEL_WARNING :: level where "LEVEL_WARNING = 4"
definition LEVEL_NOTICE :: level where "LEVEL_NOTICE = 5"
definition LEVEL_INFO :: level where "LEVEL_INFO = 6"
definition LEVEL_DEBUG :: level where "LEVEL_DEBUG = 7"

definition log_levels :: "level \<Rightarrow> string option" where
  "log_levels = map_of [(0, ''emergency''), (1, ''alert''), (2, ''critical''), (3, ''error''),
                        (4, ''warning''), (5, ''notice''), (6, ''info''), (7, ''debug'')]"

subsection \<open>\<open>fmt.Sprintf\<close> on string operands\<close>

text \<open>The characters that start Go's flags, width, precision or argument index.\<close>

definition fmt_flag_char :: "char \<Rightarrow> bool" where
  "fmt_flag_char c \<longleftrightarrow> c \<in> set ''#0+- .*[123456789''"

text \<open>\<open>%!(EXTRA string=a, string=b)\<close> for operands no verb consumed.\<close>

fun extra_args :: "string list \<Rightarrow> string" where
  "extra_args [] = []"
| "extra_args [a] = ''string='' @ a"
| "extra_args (a # b # as) = ''string='' @ a @ '', '' @ extra_args (b # as)"

definition fmt_extra :: "string list \<Rightarrow> string" where
  "fmt_extra as = (if as = [] then [] else ''%!(EXTRA '' @ extra_args as @ '')'')"

fun sprintf_loop :: "string \<Rightarrow> string list \<Rightarrow> string option" where
  "sprintf_loop [] as = Some (fmt_extra as)"
| "sprintf_loop [c] as =
     (if c = CHR ''%'' then map_option (\<lambda>r. ''%!(NOVERB)'' @ r) (sprintf_loop [] as)
      else map_option (Cons c) (sprintf_loop [] as))"
| "sprintf_loop (c # v # cs) as =
     (if c \<noteq> CHR ''%'' then map_option (Cons c) (sprintf_loop (v # cs) as)
      else if v = CHR ''%'' then map_option (Cons CHR ''%'') (sprintf_loop cs as)
      else if fmt_flag_char v \<or> v \<in> set ''qxX'' then None
      else case as of
        [] \<Rightarrow> map_option (\<lambda>r. ''%!'' @ [v] @ ''(MISSING)'' @ r) (sprintf_loop cs [])
      | a # as' \<Rightarrow>
          map_option (\<lambda>r. (if v \<in> set ''sv'' then a else ''%!'' @ [v] @ ''(string='' @ a @ '')'') @ r)
            (sprintf_loop cs as'))"

text \<open>
  The shape of a format: \<open>weave ls as\<close> is the literal segments \<open>ls\<close> with
  the strings \<open>as\<close> between consecutive segments.
\<close>

fun weave :: "string list \<Rightarrow> string list \<Rightarrow> string" where
  "weave [] as = []"
| "weave [l] as = l"
| "weave (l # l' # ls) as = l @ (case as of [] \<Rightarrow> [] | a # _ \<Rightarrow> a) @ weave (l' # ls) (drop 1 as)"

definition go_sprintf :: "string \<Rightarrow> string list \<Rightarrow> string option" where
  "go_sprintf f as = sprintf_loop f as"

subsection \<open>The formatter\<close>

record formater =
  time_layout :: string
  text_format :: string

definition default_time_format :: string where
  "default_time_format = ''2006-01-02 15:04:05.000''"

definition default_text_format :: string where
  "default_text_format = ''%s>%s>%s>%s>%s'' @ [CHR 10]"

definition new_simple_formater :: "string \<Rightarrow> string \<Rightarrow> formater" where
  "new_simple_formater layout tfmt =
     \<lparr>time_layout = (if layout = [] then default_time_format else layout),
      text_format = (if tfmt = [] then default_text_format else tfmt)\<rparr>"

text \<open>
  \<open>Format(now, level, uuid, event, msg)\<close>; the time layout is read by the
  layout chunker of the time model, and a layout with an element that
  model does not cover is outside the model (\<open>None\<close>).
\<close>

definition level_name :: "level \<Rightarrow> string" where
  "level_name l = (case log_levels l of Some s \<Rightarrow> s | None \<Rightarrow> ''Unknown'')"

definition format :: "formater \<Rightarrow> civil \<Rightarrow> level \<Rightarrow> string \<Rightarrow> string \<Rightarrow> string \<Rightarrow> string option" where
  "format f now l uuid event msg =
     (case layout_chunks (time_layout f) of
        None \<Rightarrow> None
      | Some lay \<Rightarrow> go_sprintf (text_format f) [time_format lay now, level_name l, uuid, event, msg])"

subsection \<open>The logger\<close>

text \<open>
  \<open>simpleLogger\<close> over a writer state \<open>'w\<close>; the formatter is the simple one,
  the only \<open>IFormater\<close> of the package.
\<close>

record 'w slogger =
  writer :: 'w
  formater :: formater
  glevel :: level

definition new_simple_logger :: "'w \<Rightarrow> formater \<Rightarrow> 'w slogger" where
  "new_simple_logger w f = \<lparr>writer = w, formater = f, glevel = LEVEL_INFO\<rparr>"

definition set_log_level :: "'w slogger \<Rightarrow> level \<Rightarrow> 'w slogger" where
  "set_log_level s l = (if log_levels l \<noteq> None then s\<lparr>glevel := l\<rparr> else s)"

text \<open>\<open>s2b\<close>: the string's bytes, shared with the string rather than copied.\<close>

definition s2b :: "string \<Rightarrow> bytes" where
  "s2b s = map (\<lambda>c. of_nat (of_char c)) s"

text \<open>
  \<open>Log(level, uuid, event, msg)\<close> with the clock reading \<open>clock\<close>; \<open>wr\<close> is
  the writer's \<open>Write(level, p, now)\<close>, \<open>None\<close> while it blocks.  The result
  is the new logger and the error returned, or \<open>None\<close> when the formatter
  is outside the model or the write blocks.
\<close>

definition slog_log ::
  "('w \<Rightarrow> level \<Rightarrow> bytes \<Rightarrow> civil \<Rightarrow> ('w \<times> nat \<times> err option) option) \<Rightarrow>
   'w slogger \<Rightarrow> civil \<Rightarrow> level \<Rightarrow> string \<Rightarrow> string \<Rightarrow> string \<Rightarrow> ('w slogger \<times> err option) option" where
  "slog_log wr s clock l uuid event msg =
     (if l > glevel s then Some (s, None)
      else let now = clock in
        case format (formater s) now l uuid event msg of
          None \<Rightarrow> None
        | Some ss \<Rightarrow>
            (case wr (writer s) l (s2b ss) now of
               None \<Rightarrow> None
             | Some (w', n, e) \<Rightarrow> Some (s\<lparr>writer := w'\<rparr>, e)))"

text \<open>The eight level methods.\<close>

definition slog_debug where "slog_debug wr s clock = slog_log wr s clock LEVEL_DEBUG"
definition slog_info where "slog_info wr s clock = slog_log wr s clock LEVEL_INFO"
definition slog_notice where "slog_notice wr s clock = slog_log wr s clock LEVEL_NOTICE"
definition slog_warning where "slog_warning wr s clock = slog_log wr s clock LEVEL_WARNING"
definition slog_error where "slog_error wr s clock = slog_log wr s clock LEVEL_ERROR"
definition slog_critical where "slog_critical wr s clock = slog_log wr s clock LEVEL_CRITICAL"
definition slog_alert where "slog_alert wr s clock = slog_log wr s clock LEVEL_ALERT"
definition slog_emergency where "slog_emergency wr s clock = slog_log wr s clock LEVEL_EMERGENCY"

subsection \<open>Example inputs\<close>

definition fmt0 :: formater where "fmt0 = new_simple_formater [] []"

definition alog0 :: "nat alog" where "alog0 = new_async_log [(6, 0)] 2"

subsection \<open>Formatting\<close>

lemma sprintf_literal:
  "CHR ''%'' \<notin> set l \<Longrightarrow> sprintf_loop (l @ r) as = map_option ((@) l) (sprintf_loop r as)"
proof (induction l)
  case (Cons c l)
  then show ?case
    by (cases "l @ r") (auto simp: option.map_comp comp_def)
qed (cases "sprintf_loop r as"; simp)

lemma sprintf_verb_s:
  "sprintf_loop (''%s'' @ r) as =
     (case as of [] \<Rightarrow> map_option ((@) ''%!s(MISSING)'') (sprintf_loop r [])
      | a # as' \<Rightarrow> map_option ((@) a) (sprintf_loop r as'))"
  by (cases as; cases "sprintf_loop r (drop 1 as)") (simp_all add: fmt_flag_char_def)

lemma sprintf_weave:
  "\<forall>l\<in>set ls. CHR ''%'' \<notin> set l \<Longrightarrow> ls \<noteq> [] \<Longrightarrow>
   sprintf_loop (weave ls (replicate (length ls - 1) ''%s'')) as =
     Some (weave ls (take (length ls - 1) as @ replicate (length ls - 1 - length as) ''%!s(MISSING)'')
           @ fmt_extra (drop (length ls - 1) as))"
proof (induction ls as rule: weave.induct)
  case (2 l as)
  then show ?case using sprintf_literal[of l "[]" as] by simp
next
  case (3 l l' ls as)
  then show ?case
    by (cases as) (simp_all add: sprintf_literal sprintf_verb_s option.map_comp comp_def fmt_flag_char_def)
qed simp


lemma default_text_format_weave:
  "default_text_format = weave [[], ''>'', ''>'', ''>'', ''>'', [CHR 10]] (replicate 5 ''%s'')"
  by (simp add: default_text_format_def eval_nat_numeral)

lemma format_fmt0:
  "format fmt0 now l u e m =
     Some (time_format layout_stamp now @ ''>'' @ level_name l @ ''>'' @ u @ ''>'' @ e @ ''>'' @ m @ [CHR 10])"
proof -
  have "go_sprintf default_text_format [time_format layout_stamp now, level_name l, u, e, m] =
     Some (time_format layout_stamp now @ ''>'' @ level_name l @ ''>'' @ u @ ''>'' @ e @ ''>'' @ m @ [CHR 10])"
    unfolding default_text_format_weave go_sprintf_def
    using sprintf_weave[of "[[], ''>'', ''>'', ''>'', ''>'', [CHR 10]]" "[time_format layout_stamp now, level_name l, u, e, m]"]
    by (simp add: fmt_extra_def eval_nat_numeral)
  moreover have "layout_chunks (time_layout fmt0) = Some layout_stamp"
  proof -
    have "time_layout fmt0 = ''2006-01-02 15:04:05.000''"
      by (simp add: fmt0_def new_simple_formater_def default_time_format_def)
    then show ?thesis by (simp only: layout_chunks_source)
  qed
  ultimately show ?thesis by (simp add: format_def fmt0_def new_simple_formater_def)
qed

subsection \<open>Properties of the facade\<close>

text \<open>
  For a text format made of literal segments
  without \<open>%\<close> separated by \<open>n\<close> verbs \<open>%s\<close>, \<open>fmt.Sprintf\<close> puts the
  first \<open>n\<close> operands between the segments in order, verbatim (a \<open>%\<close> inside
  an operand is not interpreted), prints \<open>%!s(MISSING)\<close> for each verb
  without an operand and appends \<open>%!(EXTRA ...)\<close> for operands left over.
\<close>

theorem go_sprintf_fields:
  "\<forall>l\<in>set ls. CHR ''%'' \<notin> set l \<Longrightarrow> ls \<noteq> [] \<Longrightarrow>
   go_sprintf (weave ls (replicate (length ls - 1) ''%s'')) as =
     Some (weave ls (take (length ls - 1) as @ replicate (length ls - 1 - length as) ''%!s(MISSING)'')
           @ fmt_extra (drop (length ls - 1) as))"
  unfolding go_sprintf_def by (rule sprintf_weave)

text \<open>
  The formatter built with empty arguments
  prints the time with \<open>2006-01-02 15:04:05.000\<close>, the level's name (or
  \<open>Unknown\<close>), the uuid, the event and the message, separated by \<open>>\<close> and
  ended by a newline.
\<close>

theorem format_default_fields:
  "format (new_simple_formater [] []) now l u e m =
     Some (time_format layout_stamp now @ ''>'' @ (case log_levels l of Some n \<Rightarrow> n | None \<Rightarrow> ''Unknown'') @
           ''>'' @ u @ ''>'' @ e @ ''>'' @ m @ [CHR 10])"
  using format_fmt0[of now l u e m] by (simp add: fmt0_def level_name_def)

text \<open>
  C29: the formatter escapes nothing, so one record
  whose message holds a newline followed by another formatted line prints
  exactly as two records: a caller's message can forge log records.
\<close>

theorem format_forges_record:
  assumes "format fmt0 now l u e m = Some r1" "format fmt0 now' l' u' e' m' = Some r2"
  shows "format fmt0 now l u e (m @ [CHR 10] @ butlast r2) = Some (r1 @ r2)"
proof -
  have r2: "r2 = time_format layout_stamp now' @ ''>'' @ level_name l' @ ''>'' @ u' @ ''>'' @ e' @ ''>'' @ m' @ [CHR 10]"
    using assms(2) format_fmt0[of now' l' u' e' m'] by simp
  then have "butlast r2 @ [CHR 10] = r2" by (simp add: butlast_append)
  moreover have "r1 = time_format layout_stamp now @ ''>'' @ level_name l @ ''>'' @ u @ ''>'' @ e @ ''>'' @ m @ [CHR 10]"
    using assms(1) format_fmt0[of now l u e m] by simp
  ultimately show ?thesis by (simp add: format_fmt0)
qed

text \<open>
  C15: a logger over the asynchronous dispatcher hands a
  record to \<open>msgCh\<close> exactly when its level is at most the logger's level:
  the item carries the level, the formatted line's bytes and the clock
  read by \<open>Log\<close>; a filtered record changes nothing; both report no error.
\<close>

theorem log_enqueues:
  assumes "reset_phase a = 0" "msg_ch a = Some q" "length q < ch_cap a" "format f clock l u e m = Some ss"
  shows "slog_log async_write \<lparr>writer = a, formater = f, glevel = g\<rparr> clock l u e m =
           Some (\<lparr>writer = (if l \<le> g then a\<lparr>msg_ch := Some (q @ [\<lparr>it_level = l, it_msg = s2b ss, it_time = clock\<rparr>]),
                                              sent := sent a @ [\<lparr>it_level = l, it_msg = s2b ss, it_time = clock\<rparr>]\<rparr>
                                else a), formater = f, glevel = g\<rparr>, None)"
  using assms by (simp add: slog_log_def async_write_def Let_def)

text \<open>
  C30: the logger's level is always one of the eight named
  levels: \<open>NewSimpleLogger\<close> starts at \<open>LEVEL_INFO\<close>, \<open>SetLogLevel\<close> ignores
  an unknown level, and \<open>Log\<close> leaves the level alone.
\<close>

theorem glevel_known:
  "log_levels (glevel (new_simple_logger w f)) \<noteq> None \<and>
   (log_levels (glevel s) \<noteq> None \<longrightarrow> log_levels (glevel (set_log_level s l)) \<noteq> None) \<and>
   (slog_log wr s clock l u e m = Some (s', err) \<longrightarrow> glevel s' = glevel s)"
proof -
  have "log_levels (glevel (new_simple_logger w f)) \<noteq> None"
    by (simp add: new_simple_logger_def LEVEL_INFO_def log_levels_def)
  moreover have "log_levels (glevel s) \<noteq> None \<longrightarrow> log_levels (glevel (set_log_level s l)) \<noteq> None"
    by (simp add: set_log_level_def)
  moreover have "slog_log wr s clock l u e m = Some (s', err) \<longrightarrow> glevel s' = glevel s"
    by (auto simp: slog_log_def Let_def split: if_splits option.splits)
  ultimately show ?thesis by blast
qed

theorem go_sprintf_fields_witness:
  "go_sprintf ''a%s|%s'' [''x%d''] = Some ''ax%d|%!s(MISSING)''"
proof -
  have "''a%s|%s'' = weave [''a'', ''|'', []] (replicate (length [''a'', ''|'', []] - 1) ''%s'')"
    by (simp add: eval_nat_numeral)
  then show ?thesis using go_sprintf_fields[of "[''a'', ''|'', []]" "[''x%d'']"] by (simp add: fmt_extra_def)
qed

theorem format_forges_record_witness:
  "format fmt0 t_log 6 ''u'' ''e'' (''m'' @ [CHR 10] @ butlast (the (format fmt0 t_log 3 ''u'' ''e'' ''boom''))) =
     Some (the (format fmt0 t_log 6 ''u'' ''e'' ''m'') @ the (format fmt0 t_log 3 ''u'' ''e'' ''boom''))"
  using format_forges_record[of t_log 6 "''u''" "''e''" "''m''" "the (format fmt0 t_log 6 ''u'' ''e'' ''m'')"
                                t_log 3 "''u''" "''e''" "''boom''" "the (format fmt0 t_log 3 ''u'' ''e'' ''boom'')"]
  by (simp add: format_fmt0)

theorem log_enqueues_witness:
  "slog_log async_write \<lparr>writer = alog0, formater = fmt0, glevel = 6\<rparr> t_log 3 ''u'' ''e'' ''m'' =
     Some (\<lparr>writer = alog0\<lparr>msg_ch := Some [\<lparr>it_level = 3, it_msg = s2b (the (format fmt0 t_log 3 ''u'' ''e'' ''m'')),
                                              it_time = t_log\<rparr>],
                                sent := [\<lparr>it_level = 3, it_msg = s2b (the (format fmt0 t_log 3 ''u'' ''e'' ''m'')),
                                          it_time = t_log\<rparr>]\<rparr>, formater = fmt0, glevel = 6\<rparr>, None)"
proof -
  have h: "reset_phase alog0 = 0" "msg_ch alog0 = Some []" "length [] < ch_cap alog0" "sent alog0 = []"
    by (simp_all add: alog0_def new_async_log_def)
  show ?thesis using log_enqueues[OF h(1-3), of fmt0 t_log 3 "''u''" "''e''" "''m''" _ 6] h(4)
    by (simp add: format_fmt0)
qed

theorem glevel_known_witness:
  "log_levels (glevel (new_simple_logger alog0 fmt0)) \<noteq> None \<and>
   log_levels (glevel (set_log_level (new_simple_logger alog0 fmt0) 9)) \<noteq> None"
  using glevel_known[of alog0 fmt0 "new_simple_logger alog0 fmt0" 9] by blast

end
