(* ===== verification/FileSys.thy ===== *)
theory FileSys
  imports Prelude
begin

text \<open>
  The file system as the \<open>os\<close> package presents it to the program: one flat
  table from absolute paths to entries (regular files with a permission mode
  and contents, directories with a mode), a list of paths where creating,
  opening for writing or removing is refused (\<open>EACCES\<close>), and a flag for a
  full disk (\<open>ENOSPC\<close> on every non-empty write).  Open files are handles
  that name their path, their mode of writing and their offset.  The
  functions are the \<open>os\<close> calls of \<open>dailywriter.go\<close>: \<open>Stat\<close>, \<open>MkdirAll\<close>,
  \<open>OpenFile\<close>/\<open>Open\<close>, \<open>File.Write\<close>, \<open>File.Close\<close>, \<open>Remove\<close> and
  \<open>ioutil.ReadDir\<close>.  They are library calls, modelled from their POSIX
  behaviour: a write through a handle whose path has been removed succeeds
  and its bytes are lost with the unlinked inode.
\<close>

datatype fentry = RegFile nat bytes | Directory nat

record fsys =
  entries :: "(string \<times> fentry) list"
  denied :: "string list"
  no_space :: bool

record fhandle =
  fh_path :: string
  fh_append :: bool
  fh_offset :: nat

datatype oflag = OpenNewTrunc | OpenAppend | OpenRead

definition path_join :: "string \<Rightarrow> string \<Rightarrow> string" where
  "path_join d n = d @ ''/'' @ n"

definition path_base :: "string \<Rightarrow> string" where
  "path_base p = rev (takeWhile (\<lambda>ch. ch \<noteq> CHR ''/'') (rev p))"

definition path_dir :: "string \<Rightarrow> string" where
  "path_dir p = rev (drop 1 (dropWhile (\<lambda>ch. ch \<noteq> CHR ''/'') (rev p)))"

definition fs_lookup :: "fsys \<Rightarrow> string \<Rightarrow> fentry option" where
  "fs_lookup fs p = map_of (entries fs) p"

definition fs_put :: "fsys \<Rightarrow> string \<Rightarrow> fentry \<Rightarrow> fsys" where
  "fs_put fs p e = fs\<lparr>entries := AList.update p e (entries fs)\<rparr>"

definition fs_del :: "fsys \<Rightarrow> string \<Rightarrow> fsys" where
  "fs_del fs p = fs\<lparr>entries := AList.delete p (entries fs)\<rparr>"

fun is_dir :: "fentry option \<Rightarrow> bool" where
  "is_dir (Some (Directory m)) = True"
| "is_dir _ = False"

definition file_data :: "fsys \<Rightarrow> string \<Rightarrow> bytes option" where
  "file_data fs p = (case fs_lookup fs p of Some (RegFile m d) \<Rightarrow> Some d | _ \<Rightarrow> None)"

text \<open>\<open>os.Stat\<close>.\<close>

definition os_stat :: "fsys \<Rightarrow> string \<Rightarrow> err + fentry" where
  "os_stat fs p = (case fs_lookup fs p of None \<Rightarrow> Inl (PathError ''stat'' p ENOENT) | Some e \<Rightarrow> Inr e)"

text \<open>\<open>os.MkdirAll(p, mode)\<close>; the ancestors of \<open>p\<close> are taken to exist.\<close>

definition os_mkdir_all :: "fsys \<Rightarrow> string \<Rightarrow> nat \<Rightarrow> err + fsys" where
  "os_mkdir_all fs p mode =
     (case fs_lookup fs p of
        Some (Directory m) \<Rightarrow> Inr fs
      | Some (RegFile m d) \<Rightarrow> Inl (PathError ''mkdir'' p ENOTDIR)
      | None \<Rightarrow> if p \<in> set (denied fs) then Inl (PathError ''mkdir'' p EACCES)
                else Inr (fs_put fs p (Directory mode)))"

text \<open>
  \<open>os.OpenFile(p, flag, mode)\<close> for the three flag sets of the program:
  \<open>O_CREATE|O_WRONLY|O_TRUNC\<close>, \<open>O_WRONLY|O_APPEND\<close> and \<open>os.Open\<close>.
  The mode applies only to a file that is created.
\<close>

definition os_open_file :: "fsys \<Rightarrow> string \<Rightarrow> oflag \<Rightarrow> nat \<Rightarrow> err + (fsys \<times> fhandle)" where
  "os_open_file fs p fl mode =
     (let h = \<lparr>fh_path = p, fh_append = (fl = OpenAppend), fh_offset = 0\<rparr> in
      if fl \<noteq> OpenRead \<and> p \<in> set (denied fs) then Inl (PathError ''open'' p EACCES)
      else case fs_lookup fs p of
        Some (Directory m) \<Rightarrow> Inl (PathError ''open'' p EISDIR)
      | Some (RegFile m d) \<Rightarrow>
          (if fl = OpenNewTrunc then Inr (fs_put fs p (RegFile m []), h) else Inr (fs, h))
      | None \<Rightarrow>
          (if fl = OpenNewTrunc \<and> is_dir (fs_lookup fs (path_dir p))
           then Inr (fs_put fs p (RegFile mode []), h)
           else Inl (PathError ''open'' p ENOENT)))"

text \<open>
  \<open>File.Write(b)\<close>: the new file system, the advanced handle, the count and
  the error.  An appending handle writes at the end, another one at its
  offset (overwriting, and zero-filling a gap).
\<close>

definition write_at :: "bytes \<Rightarrow> nat \<Rightarrow> bytes \<Rightarrow> bytes" where
  "write_at d off b = take off d @ replicate (off - length d) 0 @ b @ drop (off + length b) d"

definition fh_write :: "fsys \<Rightarrow> fhandle \<Rightarrow> bytes \<Rightarrow> fsys \<times> fhandle \<times> nat \<times> err option" where
  "fh_write fs h b =
     (if no_space fs \<and> b \<noteq> [] then (fs, h, 0, Some (PathError ''write'' (fh_path h) ENOSPC))
      else case fs_lookup fs (fh_path h) of
        Some (RegFile m d) \<Rightarrow>
          (let d' = (if fh_append h then d @ b else write_at d (fh_offset h) b);
               off' = (if fh_append h then length d' else fh_offset h + length b)
           in (fs_put fs (fh_path h) (RegFile m d'), h\<lparr>fh_offset := off'\<rparr>, length b, None))
      | _ \<Rightarrow> (fs, h\<lparr>fh_offset := fh_offset h + length b\<rparr>, length b, None))"

text \<open>\<open>File.Close()\<close> of a regular file releases the descriptor; it does not fail here.\<close>

definition fh_close :: "fsys \<Rightarrow> fhandle \<Rightarrow> err option" where
  "fh_close fs h = None"

text \<open>\<open>os.Remove(p)\<close>.\<close>

definition os_remove :: "fsys \<Rightarrow> string \<Rightarrow> err + fsys" where
  "os_remove fs p =
     (if p \<in> set (denied fs) then Inl (PathError ''remove'' p EACCES)
      else case fs_lookup fs p of
        None \<Rightarrow> Inl (PathError ''remove'' p ENOENT)
      | Some e \<Rightarrow> Inr (fs_del fs p))"

text \<open>\<open>ioutil.ReadDir(d)\<close>: the entries directly inside \<open>d\<close>, sorted by name.\<close>

definition is_child :: "string \<Rightarrow> string \<Rightarrow> bool" where
  "is_child d q \<longleftrightarrow> has_prefix q (d @ ''/'') \<and> length q > Suc (length d)
                    \<and> CHR ''/'' \<notin> set (drop (Suc (length d)) q)"

definition read_dir :: "fsys \<Rightarrow> string \<Rightarrow> err + (string \<times> fentry) list" where
  "read_dir fs d =
     (case fs_lookup fs d of
        None \<Rightarrow> Inl (PathError ''open'' d ENOENT)
      | Some (RegFile m x) \<Rightarrow> Inl (PathError ''readdirent'' d ENOTDIR)
      | Some (Directory m) \<Rightarrow>
          Inr (sort_key fst [(drop (Suc (length d)) q, e). (q, e) \<leftarrow> entries fs, is_child d q]))"

definition fs_wf :: "fsys \<Rightarrow> bool" where
  "fs_wf fs \<longleftrightarrow> distinct (map fst (entries fs))"

subsection \<open>Facts\<close>

lemma is_dir_iff: "is_dir e \<longleftrightarrow> (\<exists>m. e = Some (Directory m))"
  by (cases e rule: is_dir.cases) auto

lemma fs_lookup_put [simp, golib]:
  "fs_lookup (fs_put fs p e) q = (if q = p then Some e else fs_lookup fs q)"
  by (simp add: fs_lookup_def fs_put_def update_conv')

lemma fs_lookup_del [simp, golib]:
  "fs_lookup (fs_del fs p) q = (if q = p then None else fs_lookup fs q)"
  by (simp add: fs_lookup_def fs_del_def delete_conv')

lemma fs_put_put [simp, golib]: "fs_put (fs_put fs p e) p e' = fs_put fs p e'"
  by (simp add: fs_put_def)

lemma fs_put_fields [simp]:
  "denied (fs_put fs p e) = denied fs" "no_space (fs_put fs p e) = no_space fs"
  "denied (fs_del fs p) = denied fs" "no_space (fs_del fs p) = no_space fs"
  by (simp_all add: fs_put_def fs_del_def)

lemma fs_wf_put [model_inv]: "fs_wf fs \<Longrightarrow> fs_wf (fs_put fs p e)"
  by (simp add: fs_wf_def fs_put_def distinct_update)

lemma fs_wf_del [model_inv]: "fs_wf fs \<Longrightarrow> fs_wf (fs_del fs p)"
  by (simp add: fs_wf_def fs_del_def distinct_delete)

lemma path_base_join [simp, golib]: "CHR ''/'' \<notin> set n \<Longrightarrow> path_base (path_join d n) = n"
proof -
  assume n: "CHR ''/'' \<notin> set n"
  have "rev (d @ ''/'' @ n) = rev n @ CHR ''/'' # rev d" by simp
  moreover have "takeWhile (\<lambda>ch. ch \<noteq> CHR ''/'') (rev n @ CHR ''/'' # rev d) = rev n"
    using n by (subst takeWhile_append2) auto
  ultimately show ?thesis by (simp add: path_base_def path_join_def)
qed

lemma path_dir_join [simp, golib]: "CHR ''/'' \<notin> set n \<Longrightarrow> path_dir (path_join d n) = d"
proof -
  assume n: "CHR ''/'' \<notin> set n"
  have "rev (d @ ''/'' @ n) = rev n @ CHR ''/'' # rev d" by simp
  moreover have "dropWhile (\<lambda>ch. ch \<noteq> CHR ''/'') (rev n @ CHR ''/'' # rev d) = CHR ''/'' # rev d"
    using n by (subst dropWhile_append2) auto
  ultimately show ?thesis by (simp add: path_dir_def path_join_def)
qed

lemma os_mkdir_all_wf [model_inv]: "os_mkdir_all fs p m = Inr fs' \<Longrightarrow> fs_wf fs \<Longrightarrow> fs_wf fs'"
  by (auto simp: os_mkdir_all_def fs_wf_put split: option.splits fentry.splits if_splits)

lemma os_open_file_wf [model_inv]:
  "os_open_file fs p fl m = Inr (fs', h) \<Longrightarrow> fs_wf fs \<Longrightarrow> fs_wf fs'"
  by (auto simp: os_open_file_def Let_def fs_wf_put split: option.splits fentry.splits if_splits)

lemma fh_write_wf [model_inv]: "fh_write fs h b = (fs', h', n, e) \<Longrightarrow> fs_wf fs \<Longrightarrow> fs_wf fs'"
  by (auto simp: fh_write_def Let_def fs_wf_put split: option.splits fentry.splits if_splits)

lemma os_remove_wf [model_inv]: "os_remove fs p = Inr fs' \<Longrightarrow> fs_wf fs \<Longrightarrow> fs_wf fs'"
  by (auto simp: os_remove_def fs_wf_del split: option.splits if_splits)

lemma path_join_eq [simp]: "path_join d n = path_join d n' \<longleftrightarrow> n = n'"
  by (simp add: path_join_def)

lemma path_join_ne_dir [simp]: "path_join d n \<noteq> d" "d \<noteq> path_join d n"
  by (simp_all add: path_join_def)

lemma fs_wf_lookup: "fs_wf fs \<Longrightarrow> (q, e) \<in> set (entries fs) \<Longrightarrow> fs_lookup fs q = Some e"
  by (simp add: fs_wf_def fs_lookup_def)

lemma is_child_join: "is_child d q \<Longrightarrow> path_join d (drop (Suc (length d)) q) = q"
  by (auto simp: is_child_def has_prefix_iff path_join_def)

lemma is_child_name: "is_child d q \<Longrightarrow> CHR ''/'' \<notin> set (drop (Suc (length d)) q)"
  by (simp add: is_child_def)

lemma comprehension_filter:
  "[(f q, e). (q, e) \<leftarrow> xs, P q] = map (\<lambda>(q, e). (f q, e)) (filter (P \<circ> fst) xs)"
  by (induction xs) auto

lemma read_dir_Inr:
  "read_dir fs d = Inr es \<Longrightarrow>
   (\<exists>dm. fs_lookup fs d = Some (Directory dm)) \<and>
   mset es = mset (map (\<lambda>(q, e). (drop (Suc (length d)) q, e)) (filter (is_child d \<circ> fst) (entries fs)))"
  by (auto simp: read_dir_def comprehension_filter mset_sort split: option.splits fentry.splits)

lemma read_dir_member:
  "fs_wf fs \<Longrightarrow> read_dir fs d = Inr es \<Longrightarrow> (n, e) \<in> set es \<Longrightarrow>
   fs_lookup fs (path_join d n) = Some e \<and> CHR ''/'' \<notin> set n"
  by (drule read_dir_Inr, drule conjunct2, drule arg_cong[where f=set_mset])
     (auto simp: fs_wf_lookup is_child_join is_child_name)

lemma read_dir_distinct: "fs_wf fs \<Longrightarrow> read_dir fs d = Inr es \<Longrightarrow> distinct (map fst es)"
proof -
  assume wf: "fs_wf fs" and r: "read_dir fs d = Inr es"
  let ?k = "Suc (length d)"
  let ?l = "filter (is_child d \<circ> fst) (entries fs)"
  have es: "mset (map fst es) = mset (map (drop ?k) (map fst ?l))"
    using read_dir_Inr[OF r] by (simp add: case_prod_unfold comp_def image_mset.compositionality)
  have "distinct (map fst ?l)" using wf by (simp add: fs_wf_def distinct_map_filter)
  moreover have "inj_on (drop ?k) (set (map fst ?l))"
  proof (rule inj_onI)
    fix x y assume x: "x \<in> set (map fst ?l)" and y: "y \<in> set (map fst ?l)"
      and e: "drop ?k x = drop ?k y"
    have "path_join d (drop ?k x) = x" using x by (auto intro: is_child_join)
    moreover have "path_join d (drop ?k y) = y" using y by (auto intro: is_child_join)
    ultimately show "x = y" using e by metis
  qed
  ultimately have "distinct (map (drop ?k) (map fst ?l))" by (simp only: distinct_map)
  then show ?thesis using es by (metis mset_eq_imp_distinct_iff)
qed

lemma path_join_append [simp]: "path_join d n @ x = path_join d (n @ x)"
  by (simp add: path_join_def)

end
