(* ===== verification/Codec.thy ===== *)
theory Codec
  imports GoTime FileSys
begin

text \<open>
  The configuration of \<open>dailywriter.go\<close> and its filename codec.  The package
  keeps the bucket layout, its printed length and the bucket interval in
  package variables that every \<open>New\<close> overwrites (\<open>dw_globals\<close>); a
  \<open>DailyWriter\<close> is the record \<open>dwriter\<close>.  The codec is
  \<open>filenameWithTime\<close> (bucket reading to path) and \<open>timeForName\<close> (file name
  back to a reading, or one of the mismatch errors, or a slice panic).
\<close>

subsection \<open>Package state and constants\<close>

record dw_globals =
  filename_date_format :: "chunk list"
  filename_date_length :: int
  time_interval :: "64 word"

definition second_ns :: "64 word" where "second_ns = 1000000000"
definition minute_ns :: "64 word" where "minute_ns = 60 * second_ns"
definition hour_ns :: "64 word" where "hour_ns = 60 * minute_ns"

definition compress_suffix :: string where "compress_suffix = ''.gz''"
definition default_filename_suffix :: string where "default_filename_suffix = ''.log''"
definition default_dir_mode :: nat where "default_dir_mode = 484"
definition default_file_mode :: nat where "default_file_mode = 420"

definition dw_globals_init :: dw_globals where
  "dw_globals_init =
     \<lparr>filename_date_format = layout_second, filename_date_length = 19, time_interval = 24 * hour_ns\<rparr>"

text \<open>\<open>init()\<close>: a panic unless the layout prints \<open>now\<close> at the declared length.\<close>

definition dw_init :: "dw_globals \<Rightarrow> civil \<Rightarrow> err option" where
  "dw_init g now =
     (if int (length (time_format (filename_date_format g) now)) \<noteq> filename_date_length g
      then Some (Panic ''FilenameDateFormat must have the same length with FilenameDateLength'')
      else None)"

record dwriter =
  dir :: string
  filename_prefix :: string
  filename_suffix :: string
  cur_filename :: string
  cur_file :: "fhandle option"
  start_clean :: bool
  clean_pending :: bool
  compress :: bool
  reserve :: int

text \<open>What \<open>New\<close> reads from the process: \<open>os.TempDir()\<close>, \<open>os.Args[0]\<close>, \<open>os.Getwd()\<close>.\<close>

record dw_env =
  temp_dir :: string
  args0 :: string
  work_dir :: "string option"

text \<open>\<open>filepath.Abs\<close> (without the lexical cleaning of \<open>filepath.Clean\<close>).\<close>

definition filepath_abs :: "dw_env \<Rightarrow> string \<Rightarrow> err + string" where
  "filepath_abs env p =
     (if p \<noteq> [] \<and> hd p = CHR ''/'' then Inr p
      else case work_dir env of None \<Rightarrow> Inl (PathError ''getwd'' ''.'' ENOENT)
           | Some wd \<Rightarrow> Inr (path_join wd p))"

text \<open>
  The \<open>switch timeType\<close> of \<open>New\<close>: the case labels select a granularity, and
  each case assigns the package variables.  Note that the \<open>day\<close> case leaves
  the interval as it is.
\<close>

datatype granularity = Day | Hour | Minute | Second

definition time_type_of :: "string \<Rightarrow> granularity option" where
  "time_type_of tt =
     (if tt = ''day'' \<or> tt = ''d'' then Some Day
      else if tt = ''hour'' \<or> tt = ''h'' then Some Hour
      else if tt = ''minute'' \<or> tt = ''m'' then Some Minute
      else if tt = ''second'' \<or> tt = ''s'' then Some Second
      else None)"

fun apply_granularity :: "granularity \<Rightarrow> dw_globals \<Rightarrow> dw_globals" where
  "apply_granularity Day g = g\<lparr>filename_date_length := 10, filename_date_format := layout_day\<rparr>"
| "apply_granularity Hour g =
     g\<lparr>time_interval := hour_ns, filename_date_length := 13, filename_date_format := layout_hour\<rparr>"
| "apply_granularity Minute g =
     g\<lparr>time_interval := minute_ns, filename_date_length := 16, filename_date_format := layout_minute\<rparr>"
| "apply_granularity Second g =
     g\<lparr>time_interval := second_ns, filename_date_length := 19, filename_date_format := layout_second\<rparr>"

definition set_time_type :: "string \<Rightarrow> dw_globals \<Rightarrow> err + dw_globals" where
  "set_time_type tt g =
     (case time_type_of tt of
        None \<Rightarrow> Inl (Panic ''error with FilenameDateLength and timeType(unknown)'')
      | Some gr \<Rightarrow> Inr (apply_granularity gr g))"

definition dw_new ::
  "dw_env \<Rightarrow> dw_globals \<Rightarrow> string \<Rightarrow> string \<Rightarrow> string \<Rightarrow> bool \<Rightarrow> int \<Rightarrow> string
     \<Rightarrow> err + (dw_globals \<times> dwriter)" where
  "dw_new env g dir0 prefix0 suffix0 compr res tt0 =
     (case filepath_abs env (if dir0 = [] then temp_dir env else dir0) of
        Inl e \<Rightarrow> Inl e
      | Inr d \<Rightarrow>
          (let p = (if prefix0 = [] then args0 env else prefix0);
               s = (if suffix0 = [] then default_filename_suffix else suffix0);
               tt = (if tt0 = [] then ''day'' else tt0)
           in case set_time_type tt g of
                Inl e \<Rightarrow> Inl e
              | Inr g' \<Rightarrow> Inr (g', \<lparr>dir = d, filename_prefix = p, filename_suffix = s,
                     cur_filename = [], cur_file = None, start_clean = False, clean_pending = False,
                     compress = compr, reserve = res\<rparr>)))"

subsection \<open>The codec\<close>

text \<open>\<open>filenameWithTime\<close>: \<open>Join(dir, Sprintf("%s_%s%s", prefix, now.Format(layout), suffix))\<close>.\<close>

definition filename_with_time :: "dw_globals \<Rightarrow> dwriter \<Rightarrow> civil \<Rightarrow> string" where
  "filename_with_time g w now =
     path_join (dir w) (filename_prefix w @ ''_'' @ time_format (filename_date_format g) now @ filename_suffix w)"

text \<open>\<open>timeForName(filename, prefix, ext)\<close>.\<close>

definition time_for_name :: "dw_globals \<Rightarrow> string \<Rightarrow> string \<Rightarrow> string \<Rightarrow> err + civil" where
  "time_for_name g filename prefix ext =
     (if \<not> has_prefix filename prefix then Inl ErrMismatchedPrefix
      else if \<not> has_suffix filename ext then Inl ErrMismatchedSuffix
      else case go_slice filename (length prefix + 1) (length filename - length ext) of
        None \<Rightarrow> Inl (Panic ''slice bounds out of range'')
      | Some ts \<Rightarrow>
          if int (length ts) \<noteq> filename_date_length g then Inl ErrMismatchedDate
          else (case time_parse (filename_date_format g) ts of
                  Inl e \<Rightarrow> Inl (TimeParseError e)
                | Inr t \<Rightarrow> Inr t))"

text \<open>The package state is consistent when the length belongs to the layout.\<close>

definition globals_consistent :: "dw_globals \<Rightarrow> bool" where
  "globals_consistent g \<longleftrightarrow>
     (filename_date_format g, filename_date_length g)
       \<in> {(layout_day, 10), (layout_hour, 13), (layout_minute, 16), (layout_second, 19)}"

subsection \<open>Example inputs\<close>

text \<open>Inputs at which the witnesses below evaluate the theorems.\<close>

definition t0 :: civil where
  "t0 = \<lparr>year = 2019, month = 7, day = 12, hour = 9, minute = 5, second = 3, nanosecond = 0\<rparr>"

definition env0 :: dw_env where
  "env0 = \<lparr>temp_dir = ''/tmp'', args0 = ''/usr/bin/app'', work_dir = Some ''/srv''\<rparr>"

definition w0 :: dwriter where
  "w0 = \<lparr>dir = ''/var/log'', filename_prefix = ''app'', filename_suffix = ''.log'', cur_filename = [],
         cur_file = None, start_clean = False, clean_pending = False, compress = True, reserve = 2\<rparr>"

subsection \<open>Facts\<close>

lemma time_for_name_split:
  "time_for_name g (p @ x # ts @ s) p s =
     (if int (length ts) \<noteq> filename_date_length g then Inl ErrMismatchedDate
      else (case time_parse (filename_date_format g) ts of
             Inl e \<Rightarrow> Inl (TimeParseError e) | Inr t \<Rightarrow> Inr t))"
proof -
  have "has_suffix (p @ x # ts @ s) s"
    using has_suffix_append[of "p @ x # ts" s] by simp
  moreover have "go_slice (p @ x # ts @ s) (length p + 1) (length (p @ x # ts @ s) - length s) = Some ts"
    by (simp add: go_slice_def)
  ultimately show ?thesis by (simp add: time_for_name_def)
qed

lemma consistent_width:
  "globals_consistent g \<Longrightarrow>
     filename_date_length g = int (sum_list (map chunk_width (filename_date_format g)))"
  by (auto simp: globals_consistent_def layout_defs)

lemma consistent_layout:
  "globals_consistent g \<Longrightarrow>
     filename_date_format g \<in> {layout_day, layout_hour, layout_minute, layout_second}"
  by (auto simp: globals_consistent_def)

text \<open>
  C1: for a consistent package state, a reading with a four-digit year
  and a prefix and suffix without a slash, the base name of the file the
  writer opens for the reading decodes to the reading truncated to the
  bucket layout, both as the plain name with the writer's suffix and as the
  compressed name with the suffix followed by \<open>.gz\<close>.
\<close>

theorem filename_roundtrip:
  assumes g: "globals_consistent g" and t: "valid_civil t" "0 \<le> year t" "year t < 10000"
    and w: "CHR ''/'' \<notin> set (filename_prefix w)" "CHR ''/'' \<notin> set (filename_suffix w)"
  shows "time_for_name g (path_base (filename_with_time g w t)) (filename_prefix w) (filename_suffix w)
           = Inr (trunc_layout (filename_date_format g) t)
       \<and> time_for_name g (path_base (filename_with_time g w t) @ compress_suffix) (filename_prefix w)
           (filename_suffix w @ compress_suffix) = Inr (trunc_layout (filename_date_format g) t)"
proof -
  let ?l = "filename_date_format g"
  note l = codec_layouts_rt[OF consistent_layout[OF g]]
  have "StdLit CHR ''/'' \<notin> set ?l" using consistent_layout[OF g] by (auto simp: layout_defs)
  then have "CHR ''/'' \<notin> set (time_format ?l t)" using time_format_no_slash[OF t(2)] by blast
  with w have base: "path_base (filename_with_time g w t)
      = filename_prefix w @ CHR ''_'' # time_format ?l t @ filename_suffix w"
    by (simp add: filename_with_time_def)
  have "int (length (time_format ?l t)) = filename_date_length g"
    using length_time_format[OF t l(1)] consistent_width[OF g] by simp
  moreover have "time_parse ?l (time_format ?l t) = Inr (trunc_layout ?l t)"
    using time_parse_format[OF t l] .
  ultimately show ?thesis
    using time_for_name_split[of g "filename_prefix w" "CHR ''_''" "time_format ?l t"]
    by (simp add: base)
qed

lemma globals_consistent_init: "globals_consistent dw_globals_init"
  by (simp add: globals_consistent_def dw_globals_init_def)

text \<open>
  Whatever the package state before, the assignments of every case of
  the \<open>timeType\<close> switch of \<open>New\<close> leave a layout together with the length
  it prints.
\<close>

theorem set_time_type_consistent:
  "set_time_type tt g = Inr g' \<Longrightarrow> globals_consistent g'"
proof -
  assume "set_time_type tt g = Inr g'"
  then obtain gr where "g' = apply_granularity gr g"
    by (auto simp: set_time_type_def split: option.splits)
  then show ?thesis by (cases gr) (simp_all add: globals_consistent_def)
qed

theorem set_time_type_consistent_witness:
  "set_time_type ''h'' dw_globals_init = Inr (apply_granularity Hour dw_globals_init)
   \<and> globals_consistent (apply_granularity Hour dw_globals_init)"
proof -
  have s: "set_time_type ''h'' dw_globals_init = Inr (apply_granularity Hour dw_globals_init)"
    by (simp add: set_time_type_def time_type_of_def)
  show ?thesis using s set_time_type_consistent[OF s] by simp
qed

text \<open>
  the start-up check of \<open>init()\<close> passes for every clock reading with a
  four-digit year: the initial layout prints exactly the declared 19 characters.
\<close>

theorem init_check_passes:
  assumes "valid_civil now" "0 \<le> year now" "year now < 10000"
  shows "dw_init dw_globals_init now = None"
proof -
  have "list_all chunk_rt layout_second" by (simp add: layout_defs)
  then have "length (time_format layout_second now) = 19"
    using length_time_format[OF assms] by (simp add: layout_defs)
  then show ?thesis by (simp add: dw_init_def dw_globals_init_def)
qed

lemma t0_valid: "valid_civil t0" "0 \<le> year t0" "year t0 < 10000"
  by (simp_all add: t0_def valid_civil_def days_in_def)

theorem init_check_passes_witness:
  "valid_civil t0 \<and> 0 \<le> year t0 \<and> year t0 < 10000 \<and> dw_init dw_globals_init t0 = None"
  using t0_valid init_check_passes[OF t0_valid] by simp

lemmas dec_digits_small = dec_digits.simps[of 10000] dec_digits.simps[of 1000] dec_digits.simps[of 100]
  dec_digits.simps[of 10] dec_digits.simps[of "Suc 0"] dec_digits.simps[of 0]

text \<open>
  The check is a time bomb: from the year 10000 on the year prints
  five digits and \<open>init()\<close> panics, so the package cannot be loaded.
\<close>

theorem init_check_year_10000:
  "dw_init dw_globals_init \<lparr>year = 10000, month = 1, day = 1, hour = 0, minute = 0, second = 0, nanosecond = 0\<rparr>
     = Some (Panic ''FilenameDateFormat must have the same length with FilenameDateLength'')"
  by (simp add: dw_init_def dw_globals_init_def time_format_def layout_defs append_int_def dec_digits_small)

theorem filename_roundtrip_witness:
  "time_for_name dw_globals_init (path_base (filename_with_time dw_globals_init w0 t0)) ''app'' ''.log''
     = Inr (trunc_layout layout_second t0)
   \<and> time_for_name dw_globals_init (path_base (filename_with_time dw_globals_init w0 t0) @ compress_suffix)
       ''app'' (''.log'' @ compress_suffix) = Inr (trunc_layout layout_second t0)"
proof -
  have g: "globals_consistent dw_globals_init" by (rule globals_consistent_init)
  have w: "CHR ''/'' \<notin> set (filename_prefix w0)" "CHR ''/'' \<notin> set (filename_suffix w0)"
    by (simp_all add: w0_def)
  show ?thesis using filename_roundtrip[OF g t0_valid w] by (simp add: w0_def dw_globals_init_def)
qed

lemma dw_new_Inr:
  assumes "dw_new env g d p s c r tt = Inr (g', w)"
  shows "\<exists>gr. time_type_of (if tt = [] then ''day'' else tt) = Some gr \<and> g' = apply_granularity gr g"
  using assms by (auto simp: dw_new_def Let_def set_time_type_def split: sum.splits option.splits)

lemma time_type_literals [simp]:
  "time_type_of ''s'' = Some Second" "time_type_of ''day'' = Some Day"
  by (simp_all add: time_type_of_def)

text \<open>
  C33: the \<open>day\<close> case of \<open>New\<close> does not reset the package interval: a
  writer created with \<open>"day"\<close> after one created with \<open>"s"\<close> buckets its files by
  day but computes its retention cutoff with a one-second interval.
\<close>

theorem new_day_keeps_interval:
  assumes "dw_new env g d p s c r ''s'' = Inr (g1, w1)"
    and "dw_new env g1 d' p' s' c' r' ''day'' = Inr (g2, w2)"
  shows "filename_date_format g2 = layout_day \<and> time_interval g2 = second_ns"
  using dw_new_Inr[OF assms(1)] dw_new_Inr[OF assms(2)] by auto

theorem new_day_keeps_interval_witness:
  "\<exists>w1 w2. dw_new env0 dw_globals_init ''/var/log'' ''info'' ''.log'' True 5 ''s''
             = Inr (apply_granularity Second dw_globals_init, w1)
      \<and> dw_new env0 (apply_granularity Second dw_globals_init) ''/var/log'' ''err'' ''.log'' False 5 ''day''
             = Inr (apply_granularity Day (apply_granularity Second dw_globals_init), w2)
      \<and> filename_date_format (apply_granularity Day (apply_granularity Second dw_globals_init)) = layout_day
      \<and> time_interval (apply_granularity Day (apply_granularity Second dw_globals_init)) = second_ns"
proof -
  let ?g1 = "apply_granularity Second dw_globals_init"
  let ?g2 = "apply_granularity Day ?g1"
  obtain w1 where 1: "dw_new env0 dw_globals_init ''/var/log'' ''info'' ''.log'' True 5 ''s'' = Inr (?g1, w1)"
    by (simp add: dw_new_def env0_def filepath_abs_def set_time_type_def)
  obtain w2 where 2: "dw_new env0 ?g1 ''/var/log'' ''err'' ''.log'' False 5 ''day'' = Inr (?g2, w2)"
    by (simp add: dw_new_def env0_def filepath_abs_def set_time_type_def)
  show ?thesis using 1 2 new_day_keeps_interval[OF 1 2] by blast
qed

text \<open>
  C31: \<open>timeForName\<close> panics with a slice-bounds error on a name that starts
  with the prefix and ends with the suffix but is shorter than prefix, separator and suffix
  together (such as \<open>app.log\<close> for prefix \<open>app\<close> and suffix \<open>.log\<close>); the
  cleanup goroutine that calls it does not recover, so the process dies.
\<close>

theorem time_for_name_overlap_panics:
  assumes "has_prefix f p" and "has_suffix f s" and "length f < Suc (length p + length s)"
  shows "time_for_name g f p s = Inl (Panic ''slice bounds out of range'')"
proof -
  have "length s \<le> length f" using assms(2) by (simp add: has_suffix_def)
  then have "\<not> length p + 1 \<le> length f - length s" using assms(3) by arith
  with assms(1,2) show ?thesis by (simp add: time_for_name_def go_slice_def)
qed

theorem time_for_name_overlap_panics_witness:
  "has_prefix ''app.log'' ''app'' \<and> has_suffix ''app.log'' ''.log''
   \<and> time_for_name dw_globals_init ''app.log'' ''app'' ''.log'' = Inl (Panic ''slice bounds out of range'')"
proof -
  have h: "has_prefix ''app.log'' ''app''" "has_suffix ''app.log'' ''.log''"
    "length ''app.log'' < Suc (length ''app'' + length ''.log'')"
    by (simp_all add: has_prefix_def has_suffix_def)
  show ?thesis using h time_for_name_overlap_panics[OF h] by simp
qed

text \<open>
  \<open>timeForName\<close> never looks at the character between prefix and date:
  a name with any character there decodes exactly as the name with the underscore.
\<close>

theorem time_for_name_any_separator:
  "time_for_name g (p @ x # ts @ s) p s = time_for_name g (p @ CHR ''_'' # ts @ s) p s"
  by (simp only: time_for_name_split)

lemma path_base_no_slash: "CHR ''/'' \<notin> set (path_base f)"
  by (auto simp: path_base_def dest: set_takeWhileD)

text \<open>
  C34: with a prefix holding a slash (the default prefix \<open>os.Args[0]\<close> of a
  program started by path), no directory entry name decodes: retention and compression never
  see the writer's files.
\<close>

theorem slash_prefix_never_decoded:
  assumes "CHR ''/'' \<in> set p"
  shows "time_for_name g (path_base f) p s = Inl ErrMismatchedPrefix"
proof -
  have "\<not> has_prefix (path_base f) p"
    using assms path_base_no_slash[of f] by (auto simp: has_prefix_iff)
  then show ?thesis by (simp add: time_for_name_def)
qed


theorem slash_prefix_never_decoded_witness:
  "CHR ''/'' \<in> set ''./app'' \<and>
   time_for_name dw_globals_init (path_base ''/var/log/app_2019-07-12-09-05-03.log'') ''./app'' ''.log''
     = Inl ErrMismatchedPrefix"
proof -
  have h: "CHR ''/'' \<in> set ''./app''" by simp
  show ?thesis using h slash_prefix_never_decoded[OF h] by blast
qed

text \<open>
  C32: the codec state is shared by all writers: after a second \<open>New\<close> with
  \<open>"day"\<close>, the files of a writer created with \<open>"s"\<close> no longer decode (their date
  has the wrong length), so that writer's old files are neither removed nor compressed.
\<close>

theorem second_writer_hides_first:
  assumes "dw_new env g d p s c r ''s'' = Inr (g1, w1)"
    and "dw_new env g1 d' p' s' c' r' ''day'' = Inr (g2, w2)"
    and t: "valid_civil t" "0 \<le> year t" "year t < 10000"
    and w: "CHR ''/'' \<notin> set (filename_prefix w1)" "CHR ''/'' \<notin> set (filename_suffix w1)"
  shows "time_for_name g2 (path_base (filename_with_time g1 w1 t)) (filename_prefix w1) (filename_suffix w1)
           = Inl ErrMismatchedDate"
proof -
  have g1: "g1 = apply_granularity Second g" and g2: "g2 = apply_granularity Day g1"
    using dw_new_Inr[OF assms(1)] dw_new_Inr[OF assms(2)] by auto
  have "list_all chunk_rt layout_second" by (simp add: layout_defs)
  then have len: "length (time_format layout_second t) = 19"
    using length_time_format[OF t] by (simp add: layout_defs)
  have "StdLit CHR ''/'' \<notin> set layout_second" by (simp add: layout_defs)
  then have "CHR ''/'' \<notin> set (time_format layout_second t)" using time_format_no_slash[OF t(2)] by blast
  with w g1 have "path_base (filename_with_time g1 w1 t)
      = filename_prefix w1 @ CHR ''_'' # time_format layout_second t @ filename_suffix w1"
    by (simp add: filename_with_time_def)
  with len g2 show ?thesis by (simp add: time_for_name_split)
qed


theorem second_writer_hides_first_witness:
  "\<exists>w1 w2. dw_new env0 dw_globals_init ''/var/log'' ''info'' ''.log'' True 5 ''s''
             = Inr (apply_granularity Second dw_globals_init, w1)
      \<and> dw_new env0 (apply_granularity Second dw_globals_init) ''/var/log'' ''err'' ''.log'' False 5 ''day''
             = Inr (apply_granularity Day (apply_granularity Second dw_globals_init), w2)
      \<and> valid_civil t0 \<and> 0 \<le> year t0 \<and> year t0 < 10000
      \<and> CHR ''/'' \<notin> set (filename_prefix w1) \<and> CHR ''/'' \<notin> set (filename_suffix w1)
      \<and> time_for_name (apply_granularity Day (apply_granularity Second dw_globals_init))
           (path_base (filename_with_time (apply_granularity Second dw_globals_init) w1 t0))
           (filename_prefix w1) (filename_suffix w1) = Inl ErrMismatchedDate"
proof -
  let ?g1 = "apply_granularity Second dw_globals_init"
  let ?g2 = "apply_granularity Day ?g1"
  obtain w1 where 1: "dw_new env0 dw_globals_init ''/var/log'' ''info'' ''.log'' True 5 ''s'' = Inr (?g1, w1)"
      and p: "filename_prefix w1 = ''info''" "filename_suffix w1 = ''.log''"
    by (simp add: dw_new_def env0_def filepath_abs_def set_time_type_def default_filename_suffix_def)
  obtain w2 where 2: "dw_new env0 ?g1 ''/var/log'' ''err'' ''.log'' False 5 ''day'' = Inr (?g2, w2)"
    by (simp add: dw_new_def env0_def filepath_abs_def set_time_type_def)
  have t: "valid_civil t0" "0 \<le> year t0" "year t0 < 10000"
    by (simp_all add: t0_def valid_civil_def days_in_def)
  have w: "CHR ''/'' \<notin> set (filename_prefix w1)" "CHR ''/'' \<notin> set (filename_suffix w1)"
    using p by simp_all
  show ?thesis using 1 2 t w second_writer_hides_first[OF 1 2 t w] by blast
qed

end
