(* ===== verification/Rotator.thy ===== *)
theory Rotator
  imports Codec
begin

text \<open>
  The write path of \<open>DailyWriter\<close>: \<open>close\<close>, \<open>openNew\<close>,
  \<open>openExistingOrNew\<close>, \<open>rotate\<close>, \<open>clean\<close> (the coalescing signal to the
  cleanup goroutine), \<open>Write\<close>, \<open>WriteWithTime\<close>, \<open>Rotate\<close>,
  \<open>RotateWithNewFileName\<close> and \<open>Close\<close>.  Every operation holds the writer's
  mutex for its whole run, so each is one atomic step here: it takes the
  package state, the file system and the writer, and returns the new file
  system and writer with the Go results.  The clock reading \<open>time.Now()\<close> is
  an argument.  Errors do not undo effects that happened before them: a
  directory created by \<open>MkdirAll\<close> stays when the open after it fails.
\<close>

text \<open>\<open>close()\<close>: a nil file is a no-op; otherwise the file is closed and forgotten.\<close>

definition dw_close :: "fsys \<Rightarrow> dwriter \<Rightarrow> dwriter \<times> err option" where
  "dw_close fs w =
     (case cur_file w of
        None \<Rightarrow> (w, None)
      | Some h \<Rightarrow> (w\<lparr>cur_file := None\<rparr>, fh_close fs h))"

text \<open>\<open>openNew(newname)\<close>.\<close>

definition open_new :: "fsys \<Rightarrow> dwriter \<Rightarrow> string \<Rightarrow> fsys \<times> dwriter \<times> err option" where
  "open_new fs w newname =
     (case os_mkdir_all fs (dir w) default_dir_mode of
        Inl e \<Rightarrow> (fs, w, Some e)
      | Inr fs1 \<Rightarrow>
          (case os_open_file fs1 newname OpenNewTrunc default_file_mode of
             Inl e \<Rightarrow> (fs1, w, Some e)
           | Inr (fs2, h) \<Rightarrow> (fs2, w\<lparr>cur_filename := newname, cur_file := Some h\<rparr>, None)))"

text \<open>\<open>os.IsNotExist\<close>.\<close>

fun is_not_exist :: "err \<Rightarrow> bool" where
  "is_not_exist (PathError op p ENOENT) = True"
| "is_not_exist e = False"

text \<open>\<open>openExistingOrNew(filename)\<close>, with its fallback to \<open>openNew\<close>.\<close>

definition open_existing_or_new :: "fsys \<Rightarrow> dwriter \<Rightarrow> string \<Rightarrow> fsys \<times> dwriter \<times> err option" where
  "open_existing_or_new fs w filename =
     (case os_stat fs filename of
        Inl e \<Rightarrow> (if is_not_exist e then open_new fs w filename else (fs, w, Some e))
      | Inr st \<Rightarrow>
          (case os_open_file fs filename OpenAppend default_file_mode of
             Inl e \<Rightarrow> open_new fs w filename
           | Inr (fs1, h) \<Rightarrow> (fs1, w\<lparr>cur_filename := filename, cur_file := Some h\<rparr>, None)))"

text \<open>
  \<open>clean()\<close>: the \<open>sync.Once\<close> starts the goroutine and makes the channel of
  capacity one; the non-blocking send then fills the slot, or is dropped
  when a run is already pending.
\<close>

definition dw_clean :: "dwriter \<Rightarrow> dwriter" where
  "dw_clean w = w\<lparr>start_clean := True, clean_pending := True\<rparr>"

text \<open>\<open>rotate(filename)\<close>.\<close>

definition dw_rotate :: "fsys \<Rightarrow> dwriter \<Rightarrow> string \<Rightarrow> fsys \<times> dwriter \<times> err option" where
  "dw_rotate fs w filename =
     (case dw_close fs w of
        (w1, Some e) \<Rightarrow> (fs, w1, Some e)
      | (w1, None) \<Rightarrow>
          (case open_new fs w1 filename of
             (fs2, w2, Some e) \<Rightarrow> (fs2, w2, Some e)
           | (fs2, w2, None) \<Rightarrow> (fs2, dw_clean w2, None)))"

text \<open>\<open>this.file.Write(p)\<close>; on a nil \<open>*os.File\<close> Go returns \<open>os.ErrInvalid\<close>.\<close>

definition file_write :: "fsys \<Rightarrow> dwriter \<Rightarrow> bytes \<Rightarrow> fsys \<times> dwriter \<times> nat \<times> err option" where
  "file_write fs w p =
     (case cur_file w of
        None \<Rightarrow> (fs, w, 0, Some ErrInvalid)
      | Some h \<Rightarrow> (case fh_write fs h p of (fs', h', n, e) \<Rightarrow> (fs', w\<lparr>cur_file := Some h'\<rparr>, n, e)))"

text \<open>
  \<open>WriteWithTime(p, now)\<close>.  The result of \<open>rotate\<close> is discarded by the
  code, as here.
\<close>

definition write_with_time ::
  "dw_globals \<Rightarrow> fsys \<Rightarrow> dwriter \<Rightarrow> bytes \<Rightarrow> civil \<Rightarrow> fsys \<times> dwriter \<times> nat \<times> err option" where
  "write_with_time g fs w p now =
     (let filename = filename_with_time g w now in
      case (if cur_file w = None then open_existing_or_new fs w filename else (fs, w, None)) of
        (fs1, w1, Some e) \<Rightarrow> (fs1, w1, 0, Some e)
      | (fs1, w1, None) \<Rightarrow>
          (case (if cur_filename w1 \<noteq> filename then dw_rotate fs1 w1 filename else (fs1, w1, None)) of
             (fs2, w2, _) \<Rightarrow> file_write fs2 w2 p))"

text \<open>\<open>filename()\<close>: the name for the clock reading \<open>time.Now().Local()\<close>.\<close>

definition dw_filename :: "dw_globals \<Rightarrow> dwriter \<Rightarrow> civil \<Rightarrow> string" where
  "dw_filename g w clock = filename_with_time g w clock"

text \<open>\<open>Write(p)\<close> is \<open>WriteWithTime(p, time.Now().Local())\<close> with the clock reading \<open>clock\<close>.\<close>

definition dw_write :: "dw_globals \<Rightarrow> fsys \<Rightarrow> dwriter \<Rightarrow> bytes \<Rightarrow> civil \<Rightarrow> fsys \<times> dwriter \<times> nat \<times> err option" where
  "dw_write g fs w p clock = write_with_time g fs w p clock"

text \<open>\<open>Rotate()\<close> and \<open>RotateWithNewFileName(filename)\<close>.\<close>

definition rotate_now :: "dw_globals \<Rightarrow> fsys \<Rightarrow> dwriter \<Rightarrow> civil \<Rightarrow> fsys \<times> dwriter \<times> err option" where
  "rotate_now g fs w clock = dw_rotate fs w (dw_filename g w clock)"

definition rotate_with_new_file_name :: "fsys \<Rightarrow> dwriter \<Rightarrow> string \<Rightarrow> fsys \<times> dwriter \<times> err option" where
  "rotate_with_new_file_name fs w filename = dw_rotate fs w filename"

text \<open>
  The operations a client of the writer calls, and one step of the writer
  for each (\<open>clock\<close> is what \<open>time.Now()\<close> returns during the call).
\<close>

datatype dw_op =
    OpWrite bytes
  | OpWriteWithTime bytes civil
  | OpRotate
  | OpRotateWithNewFileName string
  | OpClose

fun dw_step :: "dw_globals \<Rightarrow> civil \<Rightarrow> fsys \<Rightarrow> dwriter \<Rightarrow> dw_op \<Rightarrow> fsys \<times> dwriter" where
  "dw_step g clock fs w (OpWrite p) = (case dw_write g fs w p clock of (fs', w', _) \<Rightarrow> (fs', w'))"
| "dw_step g clock fs w (OpWriteWithTime p t) =
     (case write_with_time g fs w p t of (fs', w', _) \<Rightarrow> (fs', w'))"
| "dw_step g clock fs w OpRotate = (case rotate_now g fs w clock of (fs', w', _) \<Rightarrow> (fs', w'))"
| "dw_step g clock fs w (OpRotateWithNewFileName n) =
     (case rotate_with_new_file_name fs w n of (fs', w', _) \<Rightarrow> (fs', w'))"
| "dw_step g clock fs w OpClose = (fs, fst (dw_close fs w))"

text \<open>
  The writer's invariant: an open handle is the one for the current file
  name, and a handle that does not append sits at the end of the file.
\<close>

definition dw_inv :: "fsys \<Rightarrow> dwriter \<Rightarrow> bool" where
  "dw_inv fs w \<longleftrightarrow>
     (case cur_file w of
        None \<Rightarrow> True
      | Some h \<Rightarrow> fh_path h = cur_filename w \<and>
          (fh_append h \<or> (case file_data fs (fh_path h) of None \<Rightarrow> True | Some d \<Rightarrow> fh_offset h = length d)))"

subsection \<open>The abstract view of a sequence of writes\<close>

text \<open>
  What a daily writer is for: a client that calls \<open>WriteWithTime\<close> with a
  sequence of records (\<open>dw_writes\<close>, as the dispatcher does) obtains one
  file per bucket holding the records of that bucket in order
  (\<open>bucket_data\<close>), provided the clock never returns to a bucket it has
  left (\<open>no_return\<close> on the bucket names), the directory exists and no
  system call fails.  When the clock does return, the file is truncated
  (\<open>write_rotate_truncates\<close>).
\<close>

text \<open>A client's calls of \<open>WriteWithTime(p, t)\<close> in sequence, results dropped.\<close>

fun dw_writes :: "dw_globals \<Rightarrow> fsys \<Rightarrow> dwriter \<Rightarrow> (bytes \<times> civil) list \<Rightarrow> fsys \<times> dwriter" where
  "dw_writes g fs w [] = (fs, w)"
| "dw_writes g fs w ((p, t) # ws) = (case write_with_time g fs w p t of (fs', w', _) \<Rightarrow> dw_writes g fs' w' ws)"

text \<open>A list of names in which a name, once left, does not come back.\<close>

fun no_return :: "'a list \<Rightarrow> bool" where
  "no_return [] = True"
| "no_return (x # xs) \<longleftrightarrow> x \<notin> set (dropWhile (\<lambda>y. y = x) xs) \<and> no_return xs"

text \<open>The abstract view: the bucket of each record, and the bytes a bucket receives.\<close>

definition bucket_names :: "dw_globals \<Rightarrow> dwriter \<Rightarrow> (bytes \<times> civil) list \<Rightarrow> string list" where
  "bucket_names g w ws = map (\<lambda>(p, t). filename_with_time g w t) ws"

definition bucket_data :: "dw_globals \<Rightarrow> dwriter \<Rightarrow> (bytes \<times> civil) list \<Rightarrow> string \<Rightarrow> bytes" where
  "bucket_data g w ws n = concat (map fst (filter (\<lambda>(p, t). filename_with_time g w t = n) ws))"

text \<open>
  The state of the writer before a record of the sequence whose remaining
  bucket names are \<open>ns\<close>: the handle invariant, the open file exists, every
  remaining name but the open one has no file yet, and the open name
  followed by the remaining ones does not return.
\<close>

definition bucket_ok :: "dw_globals \<Rightarrow> fsys \<Rightarrow> dwriter \<Rightarrow> string list \<Rightarrow> bool" where
  "bucket_ok g fs w ns \<longleftrightarrow>
     dw_inv fs w \<and>
     (case cur_file w of None \<Rightarrow> True | Some h \<Rightarrow> \<exists>m d. fs_lookup fs (cur_filename w) = Some (RegFile m d)) \<and>
     list_all (\<lambda>n. (cur_file w \<noteq> None \<and> n = cur_filename w) \<or> fs_lookup fs n = None) ns \<and>
     no_return ((if cur_file w = None then [] else [cur_filename w]) @ ns)"

subsection \<open>Example inputs\<close>

definition fs1 :: fsys where
  "fs1 = \<lparr>entries = [(''/var/log'', Directory 484), (''/var/log/old.log'', RegFile 420 [1, 2])],
          denied = [], no_space = False\<rparr>"

definition w1 :: dwriter where
  "w1 = w0\<lparr>cur_filename := ''/var/log/old.log'',
           cur_file := Some \<lparr>fh_path = ''/var/log/old.log'', fh_append = True, fh_offset = 0\<rparr>\<rparr>"

definition fs2 :: fsys where
  "fs2 = \<lparr>entries = [(''/var/log'', Directory 484),
                     (filename_with_time dw_globals_init w0 t0, RegFile 420 [1, 2])],
          denied = [], no_space = False\<rparr>"

definition w2 :: dwriter where
  "w2 = w0\<lparr>cur_filename := filename_with_time dw_globals_init w0 t0,
           cur_file := Some \<lparr>fh_path = filename_with_time dw_globals_init w0 t0, fh_append = True,
                             fh_offset = 0\<rparr>\<rparr>"

text \<open>Three records, two in second 09:05:03 and one in the next second.\<close>

definition wsB :: "(bytes \<times> civil) list" where
  "wsB = [([1], t0), ([2], t0), ([3], t0\<lparr>second := 4\<rparr>)]"

subsection \<open>The invariant\<close>

lemma file_data_put [simp]:
  "file_data (fs_put fs p e) q = (if q = p then (case e of RegFile m d \<Rightarrow> Some d | Directory m \<Rightarrow> None)
                                   else file_data fs q)"
  by (simp add: file_data_def split: fentry.splits)

lemma file_data_del [simp]: "file_data (fs_del fs p) q = (if q = p then None else file_data fs q)"
  by (simp add: file_data_def)

lemma write_at_end [simp]: "write_at d (length d) b = d @ b"
  by (simp add: write_at_def)

lemma dw_inv_closed [simp]: "cur_file w = None \<Longrightarrow> dw_inv fs w"
  by (simp add: dw_inv_def)

lemma os_open_file_new_Inr:
  "os_open_file fs p OpenNewTrunc m = Inr (fs', h) \<Longrightarrow>
     h = \<lparr>fh_path = p, fh_append = False, fh_offset = 0\<rparr> \<and> file_data fs' p = Some []"
  by (auto simp: os_open_file_def Let_def split: option.splits fentry.splits if_splits)

lemma os_open_file_append_Inr:
  "os_open_file fs p OpenAppend m = Inr (fs', h) \<Longrightarrow>
     h = \<lparr>fh_path = p, fh_append = True, fh_offset = 0\<rparr> \<and> fs' = fs"
  by (auto simp: os_open_file_def Let_def split: option.splits fentry.splits if_splits)

lemma open_new_inv:
  assumes "cur_file w = None" and "open_new fs w n = (fs', w', e)"
  shows "dw_inv fs' w'"
  using assms by (auto simp: open_new_def dw_inv_def dest!: os_open_file_new_Inr split: sum.splits prod.splits)

lemma open_existing_or_new_inv:
  assumes "cur_file w = None" and "open_existing_or_new fs w n = (fs', w', e)"
  shows "dw_inv fs' w'"
  using assms open_new_inv[of w fs n]
  by (auto simp: open_existing_or_new_def dw_inv_def dest!: os_open_file_append_Inr
      split: sum.splits prod.splits if_splits)

lemma dw_close_None [simp]: "cur_file (fst (dw_close fs w)) = None"
  by (simp add: dw_close_def split: option.splits)

lemma dw_close_simp: "dw_close fs w = (w\<lparr>cur_file := None\<rparr>, None)"
  by (simp add: dw_close_def fh_close_def split: option.splits)

lemma dw_clean_inv [simp]: "dw_inv fs (dw_clean w) = dw_inv fs w"
  by (cases "cur_file w") (simp_all add: dw_inv_def dw_clean_def)

lemma dw_rotate_inv:
  assumes "dw_rotate fs w n = (fs', w', e)"
  shows "dw_inv fs' w'"
proof -
  obtain fs2 w2 e2 where o: "open_new fs (w\<lparr>cur_file := None\<rparr>) n = (fs2, w2, e2)"
    by (metis prod_cases3)
  have "dw_inv fs2 w2" by (rule open_new_inv[OF _ o]) simp
  with assms o show ?thesis by (auto simp: dw_rotate_def dw_close_simp split: option.splits)
qed

lemma file_write_inv:
  assumes "dw_inv fs w" and "file_write fs w p = (fs', w', n, e)"
  shows "dw_inv fs' w'"
  using assms
  by (auto simp: file_write_def fh_write_def dw_inv_def file_data_def Let_def
      split: option.splits fentry.splits if_splits)

lemma write_with_time_inv:
  assumes "dw_inv fs w" and "write_with_time g fs w p t = (fs', w', n, e)"
  shows "dw_inv fs' w'"
proof -
  let ?f = "filename_with_time g w t"
  obtain fs1 w1 e1 where o: "(if cur_file w = None then open_existing_or_new fs w ?f else (fs, w, None)) = (fs1, w1, e1)"
    by (metis prod_cases3)
  have i1: "dw_inv fs1 w1"
    using o assms(1) open_existing_or_new_inv[of w fs ?f] by (auto split: if_splits)
  obtain fs2 w2 e2 where r: "(if cur_filename w1 \<noteq> ?f then dw_rotate fs1 w1 ?f else (fs1, w1, None)) = (fs2, w2, e2)"
    by (metis prod_cases3)
  have i2: "dw_inv fs2 w2" using r i1 dw_rotate_inv[of fs1 w1 ?f] by (auto split: if_splits)
  show ?thesis
  proof (cases e1)
    case None
    with assms(2) o r have "file_write fs2 w2 p = (fs', w', n, e)"
      by (simp add: write_with_time_def Let_def)
    with i2 show ?thesis by (rule file_write_inv)
  next
    case (Some x)
    with assms(2) o i1 show ?thesis by (simp add: write_with_time_def Let_def)
  qed
qed

text \<open>
  C4: every operation of the writer keeps its invariant: an open handle belongs to
  the current file name, and a handle opened without \<open>O_APPEND\<close> writes at the end
  of its file.
\<close>

theorem dw_step_inv: "dw_inv fs w \<Longrightarrow> dw_step g clock fs w op = (fs', w') \<Longrightarrow> dw_inv fs' w'"
proof (cases op)
  case (OpWrite p)
  then show "dw_inv fs w \<Longrightarrow> dw_step g clock fs w op = (fs', w') \<Longrightarrow> dw_inv fs' w'"
    using write_with_time_inv[of fs w g p clock] by (auto simp: dw_write_def split: prod.splits)
next
  case (OpWriteWithTime p t)
  then show "dw_inv fs w \<Longrightarrow> dw_step g clock fs w op = (fs', w') \<Longrightarrow> dw_inv fs' w'"
    using write_with_time_inv[of fs w g p t] by (auto split: prod.splits)
next
  case OpRotate
  then show "dw_inv fs w \<Longrightarrow> dw_step g clock fs w op = (fs', w') \<Longrightarrow> dw_inv fs' w'"
    using dw_rotate_inv by (auto simp: rotate_now_def dw_filename_def split: prod.splits)
next
  case (OpRotateWithNewFileName n)
  then show "dw_inv fs w \<Longrightarrow> dw_step g clock fs w op = (fs', w') \<Longrightarrow> dw_inv fs' w'"
    using dw_rotate_inv by (auto simp: rotate_with_new_file_name_def split: prod.splits)
next
  case OpClose
  then show "dw_inv fs w \<Longrightarrow> dw_step g clock fs w op = (fs', w') \<Longrightarrow> dw_inv fs' w'"
    by auto
qed

subsection \<open>Behaviour of the write path\<close>

lemma w_fixture_names:
  "filename_prefix w1 = ''app''" "filename_suffix w1 = ''.log''" "dir w1 = ''/var/log''"
  by (simp_all add: w1_def w0_def)

lemma filename_dir:
  assumes "globals_consistent g" "0 \<le> year t"
    "CHR ''/'' \<notin> set (filename_prefix w)" "CHR ''/'' \<notin> set (filename_suffix w)"
  shows "path_dir (filename_with_time g w t) = dir w"
proof -
  have "StdLit CHR ''/'' \<notin> set (filename_date_format g)"
    using consistent_layout[OF assms(1)] by (auto simp: layout_defs)
  then have "CHR ''/'' \<notin> set (time_format (filename_date_format g) t)"
    using time_format_no_slash[OF assms(2)] by blast
  with assms(3,4) show ?thesis by (simp add: filename_with_time_def)
qed

lemma fh_write_append_end:
  assumes "fs_lookup fs (fh_path h) = Some (RegFile m d)" "\<not> no_space fs"
    "fh_append h \<or> fh_offset h = length d"
  shows "\<exists>h'. fh_write fs h p = (fs_put fs (fh_path h) (RegFile m (d @ p)), h', length p, None)
               \<and> fh_path h' = fh_path h \<and> fh_append h' = fh_append h"
  using assms by (auto simp: fh_write_def Let_def)

lemma write_same_bucket:
  assumes "dw_inv fs w" "cur_file w = Some h" "cur_filename w = filename_with_time g w t"
    "fs_lookup fs (cur_filename w) = Some (RegFile m d)" "\<not> no_space fs"
  shows "\<exists>h'. write_with_time g fs w p t
           = (fs_put fs (cur_filename w) (RegFile m (d @ p)), w\<lparr>cur_file := Some h'\<rparr>, length p, None)"
proof -
  have "fh_path h = cur_filename w" "fh_append h \<or> fh_offset h = length d"
    using assms(1,2,4) by (auto simp: dw_inv_def file_data_def)
  then obtain h' where "fh_write fs h p = (fs_put fs (cur_filename w) (RegFile m (d @ p)), h', length p, None)"
    using fh_write_append_end[of fs h m d p] assms(4,5) by auto
  then show ?thesis using assms(2,3) by (simp add: write_with_time_def file_write_def) blast
qed

text \<open>
  C3: a write in the bucket of the open file appends the bytes to that
  file and changes nothing else.
\<close>

theorem write_same_bucket_appends:
  assumes "dw_inv fs w" "cur_file w = Some h" "cur_filename w = filename_with_time g w t"
    "fs_lookup fs (cur_filename w) = Some (RegFile m d)" "\<not> no_space fs"
  shows "\<exists>h'. write_with_time g fs w p t
           = (fs_put fs (cur_filename w) (RegFile m (d @ p)), w\<lparr>cur_file := Some h'\<rparr>, length p, None)"
  using write_same_bucket[OF assms] .


lemma open_new_target:
  assumes "fs_lookup fs (dir w) = Some (Directory dm)" "n \<notin> set (denied fs)" "path_dir n = dir w"
    "fs_lookup fs n = Some (RegFile m d0) \<or> (fs_lookup fs n = None \<and> m = default_file_mode)"
  shows "open_new fs w n = (fs_put fs n (RegFile m []),
           w\<lparr>cur_filename := n, cur_file := Some \<lparr>fh_path = n, fh_append = False, fh_offset = 0\<rparr>\<rparr>, None)"
  using assms by (auto simp: open_new_def os_mkdir_all_def os_open_file_def Let_def)

lemma write_rotates_aux:
  assumes "cur_file w = Some h" "cur_filename w \<noteq> n" "n = filename_with_time g w t"
    "fs_lookup fs (dir w) = Some (Directory dm)" "n \<notin> set (denied fs)" "path_dir n = dir w"
    "fs_lookup fs n = Some (RegFile m d0) \<or> (fs_lookup fs n = None \<and> m = default_file_mode)"
    "\<not> no_space fs"
  shows "write_with_time g fs w p t = (fs_put fs n (RegFile m p),
           dw_clean (w\<lparr>cur_filename := n, cur_file := Some \<lparr>fh_path = n, fh_append = False,
                         fh_offset = length p\<rparr>\<rparr>), length p, None)"
proof -
  let ?h = "\<lparr>fh_path = n, fh_append = False, fh_offset = 0\<rparr>"
  have o: "open_new fs (w\<lparr>cur_file := None\<rparr>) n = (fs_put fs n (RegFile m []),
       w\<lparr>cur_file := None, cur_filename := n, cur_file := Some ?h\<rparr>, None)"
    using open_new_target[of fs "w\<lparr>cur_file := None\<rparr>" dm n m d0] assms(4-7) by simp
  have r: "dw_rotate fs w n = (fs_put fs n (RegFile m []), dw_clean (w\<lparr>cur_filename := n, cur_file := Some ?h\<rparr>), None)"
    using o by (simp add: dw_rotate_def dw_close_simp)
  have "fh_write (fs_put fs n (RegFile m [])) ?h p = (fs_put fs n (RegFile m p), ?h\<lparr>fh_offset := length p\<rparr>, length p, None)"
    using assms(8) by (simp add: fh_write_def write_at_def Let_def)
  with r assms(1-3) show ?thesis
    by (simp add: write_with_time_def file_write_def dw_clean_def Let_def)
qed


text \<open>
  C2: a write whose bucket differs from the open file's closes that file, creates
  the new bucket's file in the writer's directory, writes the bytes there, leaves every other
  path alone and signals the cleanup goroutine.
\<close>

theorem write_rotates:
  assumes "cur_file w = Some h" "cur_filename w \<noteq> filename_with_time g w t"
    and "globals_consistent g" "0 \<le> year t"
    "CHR ''/'' \<notin> set (filename_prefix w)" "CHR ''/'' \<notin> set (filename_suffix w)"
    and "fs_lookup fs (dir w) = Some (Directory dm)" "filename_with_time g w t \<notin> set (denied fs)"
    "fs_lookup fs (filename_with_time g w t) = None" "\<not> no_space fs"
  shows "write_with_time g fs w p t =
           (fs_put fs (filename_with_time g w t) (RegFile default_file_mode p),
            dw_clean (w\<lparr>cur_filename := filename_with_time g w t,
              cur_file := Some \<lparr>fh_path = filename_with_time g w t, fh_append = False, fh_offset = length p\<rparr>\<rparr>),
            length p, None)"
  using write_rotates_aux[OF assms(1,2) refl assms(7,8) filename_dir[OF assms(3-6)], of default_file_mode]
    assms(9,10) by simp

theorem write_rotates_witness:
  "cur_file w1 = Some \<lparr>fh_path = ''/var/log/old.log'', fh_append = True, fh_offset = 0\<rparr>
   \<and> cur_filename w1 \<noteq> filename_with_time dw_globals_init w1 t0
   \<and> fs_lookup fs1 (filename_with_time dw_globals_init w1 t0) = None
   \<and> write_with_time dw_globals_init fs1 w1 [7] t0 =
       (fs_put fs1 (filename_with_time dw_globals_init w1 t0) (RegFile default_file_mode [7]),
        dw_clean (w1\<lparr>cur_filename := filename_with_time dw_globals_init w1 t0,
          cur_file := Some \<lparr>fh_path = filename_with_time dw_globals_init w1 t0, fh_append = False,
                            fh_offset = length [7::byte]\<rparr>\<rparr>), length [7::byte], None)"
proof -
  have h: "cur_file w1 = Some \<lparr>fh_path = ''/var/log/old.log'', fh_append = True, fh_offset = 0\<rparr>"
    by (simp add: w1_def)
  have n: "cur_filename w1 \<noteq> filename_with_time dw_globals_init w1 t0"
    by (simp add: w1_def w0_def filename_with_time_def path_join_def)
  have g: "globals_consistent dw_globals_init" by (rule globals_consistent_init)
  have c: "CHR ''/'' \<notin> set (filename_prefix w1)" "CHR ''/'' \<notin> set (filename_suffix w1)"
    by (simp_all add: w_fixture_names)
  have d: "fs_lookup fs1 (dir w1) = Some (Directory 484)"
    by (simp add: fs1_def fs_lookup_def w_fixture_names)
  have f: "filename_with_time dw_globals_init w1 t0 \<notin> set (denied fs1)"
    "fs_lookup fs1 (filename_with_time dw_globals_init w1 t0) = None" "\<not> no_space fs1"
    by (simp_all add: fs1_def fs_lookup_def w1_def w0_def filename_with_time_def path_join_def)
  show ?thesis using h n f write_rotates[OF h n g t0_valid(2) c d f, of "[7]"] by blast
qed


lemma fixture_filenames:
  "filename_with_time g w1 t = filename_with_time g w0 t"
  "filename_with_time g w2 t = filename_with_time g w0 t"
  by (simp_all add: filename_with_time_def w1_def w2_def)

lemma fs2_target: "fs_lookup fs2 (filename_with_time dw_globals_init w0 t0) = Some (RegFile 420 [1, 2])"
  by (simp add: fs2_def fs_lookup_def w0_def filename_with_time_def path_join_def)

text \<open>
  C16: rotating into a bucket whose file already exists (a record with an
  older timestamp after a newer one) opens it with \<open>O_TRUNC\<close>: everything the file held
  is lost and it holds only the new bytes.
\<close>

theorem write_rotate_truncates:
  assumes "cur_file w = Some h" "cur_filename w \<noteq> filename_with_time g w t"
    and "globals_consistent g" "0 \<le> year t"
    "CHR ''/'' \<notin> set (filename_prefix w)" "CHR ''/'' \<notin> set (filename_suffix w)"
    and "fs_lookup fs (dir w) = Some (Directory dm)" "filename_with_time g w t \<notin> set (denied fs)"
    "fs_lookup fs (filename_with_time g w t) = Some (RegFile m d0)" "\<not> no_space fs"
  shows "file_data (fst (write_with_time g fs w p t)) (filename_with_time g w t) = Some p"
  using write_rotates_aux[OF assms(1,2) refl assms(7,8) filename_dir[OF assms(3-6)], of m d0]
    assms(9,10) by simp

theorem write_rotate_truncates_witness:
  "fs_lookup fs2 (filename_with_time dw_globals_init w1 t0) = Some (RegFile 420 [1, 2])
   \<and> file_data (fst (write_with_time dw_globals_init fs2 w1 [7] t0)) (filename_with_time dw_globals_init w1 t0)
       = Some [7]"
proof -
  have h: "cur_file w1 = Some \<lparr>fh_path = ''/var/log/old.log'', fh_append = True, fh_offset = 0\<rparr>"
    by (simp add: w1_def)
  have n: "cur_filename w1 \<noteq> filename_with_time dw_globals_init w1 t0"
    by (simp add: w1_def w0_def filename_with_time_def path_join_def)
  have c: "CHR ''/'' \<notin> set (filename_prefix w1)" "CHR ''/'' \<notin> set (filename_suffix w1)"
    by (simp_all add: w_fixture_names)
  have d: "fs_lookup fs2 (dir w1) = Some (Directory 484)"
    by (simp add: fs2_def fs_lookup_def w_fixture_names)
  have f: "filename_with_time dw_globals_init w1 t0 \<notin> set (denied fs2)"
    "fs_lookup fs2 (filename_with_time dw_globals_init w1 t0) = Some (RegFile 420 [1, 2])"
    "\<not> no_space fs2"
    by (simp_all add: fs2_def fixture_filenames fs2_target[unfolded fs2_def])
  show ?thesis using f(2) write_rotate_truncates[OF h n globals_consistent_init t0_valid(2) c d f, of "[7]"]
    by blast
qed

theorem write_same_bucket_appends_witness:
  "\<exists>h'. write_with_time dw_globals_init fs2 w2 [7] t0
      = (fs_put fs2 (cur_filename w2) (RegFile 420 ([1, 2] @ [7])), w2\<lparr>cur_file := Some h'\<rparr>, length [7::byte], None)"
proof -
  have i: "dw_inv fs2 w2" by (simp add: dw_inv_def w2_def)
  have h: "cur_file w2 = Some \<lparr>fh_path = filename_with_time dw_globals_init w0 t0, fh_append = True, fh_offset = 0\<rparr>"
    by (simp add: w2_def)
  have n: "cur_filename w2 = filename_with_time dw_globals_init w2 t0"
    by (simp only: fixture_filenames) (simp add: w2_def)
  have "cur_filename w2 = filename_with_time dw_globals_init w0 t0" by (simp add: w2_def)
  then have f: "fs_lookup fs2 (cur_filename w2) = Some (RegFile 420 [1, 2])" "\<not> no_space fs2"
    using fs2_target by (simp_all add: fs2_def)
  show ?thesis by (rule write_same_bucket_appends[OF i h n f])
qed

text \<open>
  The first write of a writer whose bucket file already exists opens it
  with \<open>O_APPEND\<close>, keeps its content, appends the bytes, and does not signal the cleanup
  goroutine.
\<close>

theorem write_first_appends:
  assumes "cur_file w = None" "fs_lookup fs (filename_with_time g w t) = Some (RegFile m d)"
    "filename_with_time g w t \<notin> set (denied fs)" "\<not> no_space fs"
  shows "write_with_time g fs w p t =
           (fs_put fs (filename_with_time g w t) (RegFile m (d @ p)),
            w\<lparr>cur_filename := filename_with_time g w t,
              cur_file := Some \<lparr>fh_path = filename_with_time g w t, fh_append = True,
                                fh_offset = length (d @ p)\<rparr>\<rparr>, length p, None)"
  using assms
  by (simp add: write_with_time_def open_existing_or_new_def os_stat_def os_open_file_def file_write_def
      fh_write_def Let_def)

theorem write_first_appends_witness:
  "write_with_time dw_globals_init fs2 w0 [7] t0 =
     (fs_put fs2 (filename_with_time dw_globals_init w0 t0) (RegFile 420 ([1, 2] @ [7])),
      w0\<lparr>cur_filename := filename_with_time dw_globals_init w0 t0,
        cur_file := Some \<lparr>fh_path = filename_with_time dw_globals_init w0 t0, fh_append = True,
                          fh_offset = length ([1, 2] @ [7::byte])\<rparr>\<rparr>, length [7::byte], None)"
proof -
  have h: "cur_file w0 = None" "fs_lookup fs2 (filename_with_time dw_globals_init w0 t0) = Some (RegFile 420 [1, 2])"
    "filename_with_time dw_globals_init w0 t0 \<notin> set (denied fs2)" "\<not> no_space fs2"
    by (simp add: w0_def, rule fs2_target, simp_all add: fs2_def)
  show ?thesis by (rule write_first_appends[OF h])
qed

text \<open>
  C27: when the new bucket's file cannot be created during a rotation,
  \<open>Write\<close> drops the open error and reports \<open>os.ErrInvalid\<close> from a write on the
  nil file instead; the old file is closed and no bytes are written.
\<close>

theorem write_rotate_error_lost:
  assumes "cur_file w = Some h" "cur_filename w \<noteq> filename_with_time g w t"
    "fs_lookup fs (dir w) = Some (Directory dm)" "filename_with_time g w t \<in> set (denied fs)"
  shows "write_with_time g fs w p t = (fs, w\<lparr>cur_file := None\<rparr>, 0, Some ErrInvalid)"
  using assms
  by (simp add: write_with_time_def dw_rotate_def dw_close_simp open_new_def os_mkdir_all_def
      os_open_file_def file_write_def Let_def)

theorem write_rotate_error_lost_witness:
  "write_with_time dw_globals_init (fs1\<lparr>denied := [filename_with_time dw_globals_init w1 t0]\<rparr>) w1 [7] t0
     = (fs1\<lparr>denied := [filename_with_time dw_globals_init w1 t0]\<rparr>, w1\<lparr>cur_file := None\<rparr>, 0, Some ErrInvalid)"
proof -
  have h: "cur_file w1 = Some \<lparr>fh_path = ''/var/log/old.log'', fh_append = True, fh_offset = 0\<rparr>"
    by (simp add: w1_def)
  have n: "cur_filename w1 \<noteq> filename_with_time dw_globals_init w1 t0"
    by (simp add: w1_def w0_def filename_with_time_def path_join_def)
  have d: "fs_lookup (fs1\<lparr>denied := [filename_with_time dw_globals_init w1 t0]\<rparr>) (dir w1) = Some (Directory 484)"
    by (simp add: fs1_def fs_lookup_def w_fixture_names)
  have f: "filename_with_time dw_globals_init w1 t0 \<in> set (denied (fs1\<lparr>denied := [filename_with_time dw_globals_init w1 t0]\<rparr>))"
    by simp
  show ?thesis by (rule write_rotate_error_lost[OF h n d f])
qed


text \<open>
  When the writer's directory path is a regular file, the first write
  returns the \<open>MkdirAll\<close> error to its caller with no bytes written and no state changed.
\<close>

theorem write_mkdir_error:
  assumes "cur_file w = None" "fs_lookup fs (filename_with_time g w t) = None"
    "fs_lookup fs (dir w) = Some (RegFile m x)"
  shows "write_with_time g fs w p t = (fs, w, 0, Some (PathError ''mkdir'' (dir w) ENOTDIR))"
  using assms by (simp add: write_with_time_def open_existing_or_new_def os_stat_def open_new_def
      os_mkdir_all_def Let_def)

theorem write_mkdir_error_witness:
  "write_with_time dw_globals_init (fs1\<lparr>entries := [(''/var/log'', RegFile 420 [])]\<rparr>) w0 [7] t0
     = (fs1\<lparr>entries := [(''/var/log'', RegFile 420 [])]\<rparr>, w0, 0, Some (PathError ''mkdir'' ''/var/log'' ENOTDIR))"
proof -
  have h: "cur_file w0 = None"
    "fs_lookup (fs1\<lparr>entries := [(''/var/log'', RegFile 420 [])]\<rparr>) (filename_with_time dw_globals_init w0 t0) = None"
    "fs_lookup (fs1\<lparr>entries := [(''/var/log'', RegFile 420 [])]\<rparr>) (dir w0) = Some (RegFile 420 [])"
    by (simp_all add: w0_def fs_lookup_def filename_with_time_def path_join_def)
  show ?thesis using write_mkdir_error[OF h, of "[7]"] by (simp add: w0_def)
qed

text \<open>
  A write error of the open file (here a full disk) reaches the caller of
  \<open>WriteWithTime\<close> unchanged, with a count of zero and the file unchanged.
\<close>

theorem write_no_space:
  assumes "dw_inv fs w" "cur_file w = Some h" "cur_filename w = filename_with_time g w t"
    "no_space fs" "p \<noteq> []"
  shows "write_with_time g fs w p t = (fs, w, 0, Some (PathError ''write'' (cur_filename w) ENOSPC))"
proof -
  have "fh_path h = cur_filename w" using assms(1,2) by (simp add: dw_inv_def)
  then show ?thesis using assms(2-5)
    by (simp add: write_with_time_def file_write_def fh_write_def)
qed

theorem write_no_space_witness:
  "write_with_time dw_globals_init (fs2\<lparr>no_space := True\<rparr>) w2 [7] t0
     = (fs2\<lparr>no_space := True\<rparr>, w2, 0, Some (PathError ''write'' (cur_filename w2) ENOSPC))"
proof -
  have h: "dw_inv (fs2\<lparr>no_space := True\<rparr>) w2"
    "cur_file w2 = Some \<lparr>fh_path = filename_with_time dw_globals_init w0 t0, fh_append = True, fh_offset = 0\<rparr>"
    by (simp_all add: dw_inv_def w2_def)
  have n: "cur_filename w2 = filename_with_time dw_globals_init w2 t0"
    by (simp only: fixture_filenames) (simp add: w2_def)
  show ?thesis using write_no_space[OF h n] by simp
qed

text \<open>
  \<open>Close\<close> never fails, and closing a closed writer is a no-op.
\<close>

theorem close_idempotent:
  "snd (dw_close fs w) = None \<and> dw_close fs (fst (dw_close fs w)) = (fst (dw_close fs w), None)"
  by (simp add: dw_close_def fh_close_def split: option.splits)

theorem dw_step_inv_witness:
  "dw_inv fs2 w2 \<and> dw_inv (fst (dw_step dw_globals_init t0 fs2 w2 (OpWrite [7])))
                             (snd (dw_step dw_globals_init t0 fs2 w2 (OpWrite [7])))"
proof -
  have i: "dw_inv fs2 w2" by (simp add: dw_inv_def w2_def)
  show ?thesis using i dw_step_inv[OF i, of dw_globals_init t0 "OpWrite [7]"] by simp
qed

subsection \<open>The write path refines the abstract view\<close>

lemma write_first_creates:
  assumes "cur_file w = None" "n = filename_with_time g w t" "fs_lookup fs n = None"
    "fs_lookup fs (dir w) = Some (Directory dm)" "n \<notin> set (denied fs)" "path_dir n = dir w" "\<not> no_space fs"
  shows "write_with_time g fs w p t = (fs_put fs n (RegFile default_file_mode p),
           w\<lparr>cur_filename := n, cur_file := Some \<lparr>fh_path = n, fh_append = False, fh_offset = length p\<rparr>\<rparr>,
           length p, None)"
proof -
  let ?h = "\<lparr>fh_path = n, fh_append = False, fh_offset = 0\<rparr>"
  have o: "open_new fs w n = (fs_put fs n (RegFile default_file_mode []), w\<lparr>cur_filename := n, cur_file := Some ?h\<rparr>, None)"
    using open_new_target[of fs w dm n default_file_mode] assms(3-6) by simp
  have "open_existing_or_new fs w n = open_new fs w n"
    using assms(3) by (simp add: open_existing_or_new_def os_stat_def)
  moreover have "fh_write (fs_put fs n (RegFile default_file_mode [])) ?h p =
                   (fs_put fs n (RegFile default_file_mode p), ?h\<lparr>fh_offset := length p\<rparr>, length p, None)"
    using assms(7) by (simp add: fh_write_def write_at_def Let_def)
  ultimately show ?thesis using o assms(1,2)
    by (simp add: write_with_time_def file_write_def Let_def)
qed

lemma write_bucket_step:
  assumes g: "globals_consistent g" "0 \<le> year t"
    and w: "CHR ''/'' \<notin> set (filename_prefix w)" "CHR ''/'' \<notin> set (filename_suffix w)"
    and fs: "fs_lookup fs (dir w) = Some (Directory dm)" "denied fs = []" "\<not> no_space fs"
    and ok: "bucket_ok g fs w (filename_with_time g w t # ns)"
  defines "n \<equiv> filename_with_time g w t"
  shows "\<exists>m w'. write_with_time g fs w p t =
            (fs_put fs n (RegFile m ((case file_data fs n of None \<Rightarrow> [] | Some d \<Rightarrow> d) @ p)), w', length p, None)
          \<and> dir w' = dir w \<and> filename_prefix w' = filename_prefix w \<and> filename_suffix w' = filename_suffix w
          \<and> bucket_ok g (fs_put fs n (RegFile m ((case file_data fs n of None \<Rightarrow> [] | Some d \<Rightarrow> d) @ p))) w' ns"
proof -
  have pd: "path_dir n = dir w" using filename_dir[OF g w] by (simp add: n_def)
  have nd: "n \<notin> set (denied fs)" using fs(2) by simp
  have inv: "dw_inv fs w" using ok by (simp add: bucket_ok_def)
  consider (fresh) "cur_file w = None" | (same) h where "cur_file w = Some h" "cur_filename w = n"
    | (other) h where "cur_file w = Some h" "cur_filename w \<noteq> n"
    by (cases "cur_file w") auto
  then show ?thesis
  proof cases
    case fresh
    then have absent: "fs_lookup fs n = None" and rest: "list_all (\<lambda>n. fs_lookup fs n = None) ns"
      and nr: "no_return (n # ns)"
      using ok by (simp_all add: bucket_ok_def n_def)
    let ?w' = "w\<lparr>cur_filename := n, cur_file := Some \<lparr>fh_path = n, fh_append = False, fh_offset = length p\<rparr>\<rparr>"
    have "write_with_time g fs w p t = (fs_put fs n (RegFile default_file_mode p), ?w', length p, None)"
      using write_first_creates[OF fresh n_def[THEN meta_eq_to_obj_eq] absent fs(1) nd pd fs(3)] .
    moreover have "file_data fs n = None" using absent by (simp add: file_data_def)
    moreover have "bucket_ok g (fs_put fs n (RegFile default_file_mode p)) ?w' ns"
      using rest nr by (auto simp: bucket_ok_def dw_inv_def file_data_def list_all_iff)
    ultimately show ?thesis by fastforce
  next
    case same
    obtain m d where cur: "fs_lookup fs (cur_filename w) = Some (RegFile m d)"
      using ok same by (auto simp: bucket_ok_def)
    obtain h' where r: "write_with_time g fs w p t = (fs_put fs n (RegFile m (d @ p)), w\<lparr>cur_file := Some h'\<rparr>, length p, None)"
      using write_same_bucket[OF inv same(1) _ cur fs(3), of g t p] same(2) by (auto simp: n_def)
    have "dw_inv (fs_put fs n (RegFile m (d @ p))) (w\<lparr>cur_file := Some h'\<rparr>)"
      using write_with_time_inv[OF inv r] .
    moreover have "list_all (\<lambda>n'. n' = n \<or> fs_lookup fs n' = None) ns" "no_return (n # ns)"
      using ok same by (simp_all add: bucket_ok_def n_def list_all_iff)
    ultimately have "bucket_ok g (fs_put fs n (RegFile m (d @ p))) (w\<lparr>cur_file := Some h'\<rparr>) ns"
      using same by (auto simp: bucket_ok_def list_all_iff)
    moreover have "file_data fs n = Some d" using cur same(2) by (simp add: file_data_def)
    ultimately show ?thesis using r by fastforce
  next
    case other
    have absent: "fs_lookup fs n = None" using ok other by (simp add: bucket_ok_def n_def)
    have nr: "no_return (n # ns)" and notin: "cur_filename w \<notin> set ns"
      using ok other by (simp_all add: bucket_ok_def n_def)
    have rest: "list_all (\<lambda>n. fs_lookup fs n = None) ns"
      using ok other notin by (auto simp: bucket_ok_def list_all_iff)
    let ?w' = "dw_clean (w\<lparr>cur_filename := n, cur_file := Some \<lparr>fh_path = n, fh_append = False,
                          fh_offset = length p\<rparr>\<rparr>)"
    have "write_with_time g fs w p t = (fs_put fs n (RegFile default_file_mode p), ?w', length p, None)"
      using write_rotates_aux[OF other(1) other(2) n_def[THEN meta_eq_to_obj_eq] fs(1) nd pd, of default_file_mode undefined p] absent fs(3)
      by simp
    moreover have "file_data fs n = None" using absent by (simp add: file_data_def)
    moreover have "bucket_ok g (fs_put fs n (RegFile default_file_mode p)) ?w' ns"
      using rest nr by (auto simp: bucket_ok_def dw_inv_def dw_clean_def file_data_def list_all_iff)
    ultimately show ?thesis by (fastforce simp: dw_clean_def)
  qed
qed

lemma filename_with_time_fields:
  "dir w' = dir w \<Longrightarrow> filename_prefix w' = filename_prefix w \<Longrightarrow> filename_suffix w' = filename_suffix w \<Longrightarrow>
   filename_with_time g w' t = filename_with_time g w t"
  by (simp add: filename_with_time_def)

lemma bucket_data_notin: "n \<notin> set (bucket_names g w ws) \<Longrightarrow> bucket_data g w ws n = []"
  by (induction ws) (auto simp: bucket_names_def bucket_data_def)

lemma filename_ne_dir [simp]: "filename_with_time g w t \<noteq> dir w" "dir w \<noteq> filename_with_time g w t"
  by (simp_all add: filename_with_time_def)

lemma dw_writes_gen:
  assumes "globals_consistent g" "list_all (\<lambda>(p, t). 0 \<le> year t) ws"
    "CHR ''/'' \<notin> set (filename_prefix w)" "CHR ''/'' \<notin> set (filename_suffix w)"
    "fs_lookup fs (dir w) = Some (Directory dm)" "denied fs = []" "\<not> no_space fs"
    "bucket_ok g fs w (bucket_names g w ws)"
  shows "file_data (fst (dw_writes g fs w ws)) n =
           (if n \<in> set (bucket_names g w ws)
            then Some ((case file_data fs n of None \<Rightarrow> [] | Some d \<Rightarrow> d) @ bucket_data g w ws n)
            else file_data fs n)"
  using assms
proof (induction ws arbitrary: fs w)
  case Nil
  then show ?case by (simp add: bucket_names_def)
next
  case (Cons x ws)
  obtain p t where x: "x = (p, t)" by fastforce
  let ?n = "filename_with_time g w t"
  let ?D = "case file_data fs ?n of None \<Rightarrow> [] | Some d \<Rightarrow> d"
  obtain m w' where r: "write_with_time g fs w p t = (fs_put fs ?n (RegFile m (?D @ p)), w', length p, None)"
    and f: "dir w' = dir w" "filename_prefix w' = filename_prefix w" "filename_suffix w' = filename_suffix w"
    and ok: "bucket_ok g (fs_put fs ?n (RegFile m (?D @ p))) w' (bucket_names g w ws)"
    using write_bucket_step[of g t w fs dm "bucket_names g w ws" p] Cons.prems x
    by (auto simp: bucket_names_def)
  let ?fs = "fs_put fs ?n (RegFile m (?D @ p))"
  have names: "bucket_names g w' ws = bucket_names g w ws" "bucket_data g w' ws = bucket_data g w ws"
    using filename_with_time_fields[OF f] by (simp_all add: bucket_names_def bucket_data_def fun_eq_iff)
  have ih: "file_data (fst (dw_writes g ?fs w' ws)) n =
           (if n \<in> set (bucket_names g w ws)
            then Some ((case file_data ?fs n of None \<Rightarrow> [] | Some d \<Rightarrow> d) @ bucket_data g w ws n)
            else file_data ?fs n)"
    using Cons.IH[of w' ?fs] Cons.prems ok f names x by simp
  show ?case
    using ih r x bucket_data_notin[of n g w ws]
    by (auto simp: bucket_names_def bucket_data_def file_data_def)
qed

text \<open>
  C5: a fresh writer (no file open) given records
  whose buckets never repeat after being left, in a directory that exists,
  where no bucket file exists yet and no system call fails, leaves exactly
  one file per bucket holding that bucket's records concatenated in order,
  and every other path as it was.
\<close>

theorem dw_writes_refines:
  assumes "globals_consistent g" "list_all (\<lambda>(p, t). 0 \<le> year t) ws"
    "CHR ''/'' \<notin> set (filename_prefix w)" "CHR ''/'' \<notin> set (filename_suffix w)" "cur_file w = None"
    "fs_lookup fs (dir w) = Some (Directory dm)" "denied fs = []" "\<not> no_space fs"
    "list_all (\<lambda>n. fs_lookup fs n = None) (bucket_names g w ws)" "no_return (bucket_names g w ws)"
  shows "file_data (fst (dw_writes g fs w ws)) =
           (\<lambda>n. if n \<in> set (bucket_names g w ws) then Some (bucket_data g w ws n) else file_data fs n)"
proof
  fix n
  have "bucket_ok g fs w (bucket_names g w ws)"
    using assms(5,9,10) by (simp add: bucket_ok_def list_all_iff)
  then show "file_data (fst (dw_writes g fs w ws)) n =
           (if n \<in> set (bucket_names g w ws) then Some (bucket_data g w ws n) else file_data fs n)"
    using dw_writes_gen[OF assms(1-4,6-8)] assms(9) by (auto simp: file_data_def list_all_iff)
qed

theorem dw_writes_refines_witness:
  "file_data (fst (dw_writes dw_globals_init fs1 w0 wsB)) ''/var/log/app_2019-07-12-09-05-03.log'' = Some [1, 2] \<and>
   file_data (fst (dw_writes dw_globals_init fs1 w0 wsB)) ''/var/log/app_2019-07-12-09-05-04.log'' = Some [3] \<and>
   file_data (fst (dw_writes dw_globals_init fs1 w0 wsB)) ''/var/log/old.log'' = Some [1, 2]"
proof -
  have h: "list_all (\<lambda>(p, t). 0 \<le> year t) wsB" "cur_file w0 = None"
    "fs_lookup fs1 (dir w0) = Some (Directory 484)" "denied fs1 = []" "\<not> no_space fs1"
    "list_all (\<lambda>n. fs_lookup fs1 n = None) (bucket_names dw_globals_init w0 wsB)"
    "no_return (bucket_names dw_globals_init w0 wsB)"
    "CHR ''/'' \<notin> set (filename_prefix w0)" "CHR ''/'' \<notin> set (filename_suffix w0)"
    by code_simp+
  have n: "bucket_names dw_globals_init w0 wsB =
      [''/var/log/app_2019-07-12-09-05-03.log'', ''/var/log/app_2019-07-12-09-05-03.log'',
       ''/var/log/app_2019-07-12-09-05-04.log'']"
    by code_simp
  have d: "bucket_data dw_globals_init w0 wsB ''/var/log/app_2019-07-12-09-05-03.log'' = [1, 2]"
    "bucket_data dw_globals_init w0 wsB ''/var/log/app_2019-07-12-09-05-04.log'' = [3]"
    "file_data fs1 ''/var/log/old.log'' = Some [1, 2]"
    by code_simp+
  show ?thesis using dw_writes_refines[OF globals_consistent_init h(1,8,9,2-7)] n d by simp
qed

end
