(* ===== verification/Interfaces.thy ===== *)
theory Interfaces
  imports Logger Rotator
begin

text \<open>
  The interfaces of \<open>base.go\<close> as records of their methods, one record
  field per method, over the state of the object that implements them
  (Go's dynamic dispatch becomes the choice of the record), and the
  implementations the program has: \<open>*asyncLog\<close> is an \<open>IWriter\<close>,
  \<open>*simpleFormater\<close> an \<open>IFormater\<close>, \<open>*DailyWriter\<close> an
  \<open>IWriterWithTime\<close> (\<open>dailywriter.go\<close> checks \<open>io.WriteCloser\<close> at compile
  time).  A method that can block returns an option; the writers behind a
  route are told apart by a key \<open>'k\<close> into a shared state \<open>'s\<close>, as in the
  dispatcher's model.  No type of the repository implements \<open>ILogger\<close>:
  the methods of \<open>simpleLogger\<close> take \<open>(uuid, event, msg string)\<close>, not
  \<open>(msg []byte)\<close>.
\<close>

subsection \<open>The interfaces\<close>

text \<open>\<open>ILogger\<close>: the eight level methods and \<open>Log(level, msg) error\<close>.\<close>

record 'l ilogger =
  il_debug :: "'l \<Rightarrow> bytes \<Rightarrow> 'l"
  il_info :: "'l \<Rightarrow> bytes \<Rightarrow> 'l"
  il_notice :: "'l \<Rightarrow> bytes \<Rightarrow> 'l"
  il_warning :: "'l \<Rightarrow> bytes \<Rightarrow> 'l"
  il_error :: "'l \<Rightarrow> bytes \<Rightarrow> 'l"
  il_critical :: "'l \<Rightarrow> bytes \<Rightarrow> 'l"
  il_alert :: "'l \<Rightarrow> bytes \<Rightarrow> 'l"
  il_emergency :: "'l \<Rightarrow> bytes \<Rightarrow> 'l"
  il_log :: "'l \<Rightarrow> level \<Rightarrow> bytes \<Rightarrow> 'l \<times> err option"

text \<open>\<open>IFormater\<close>: \<open>Format(now, level, uuid, event, msg) string\<close>.\<close>

record iformater =
  if_format :: "civil \<Rightarrow> level \<Rightarrow> string \<Rightarrow> string \<Rightarrow> string \<Rightarrow> string option"

text \<open>\<open>IWriter\<close>: \<open>Write(level, p, now) (int, error)\<close>, which may block.\<close>

record 'w iwriter =
  iw_write :: "'w \<Rightarrow> level \<Rightarrow> bytes \<Rightarrow> civil \<Rightarrow> ('w \<times> nat \<times> err option) option"

text \<open>
  \<open>IWriterWithTime\<close>: \<open>WriteWithTime(p, now)\<close> and the methods of the
  embedded \<open>io.WriteCloser\<close>, \<open>Write(p)\<close> (with the clock reading) and
  \<open>Close()\<close>.
\<close>

record ('k, 's) iwriter_with_time =
  wwt_write_with_time :: "'k \<Rightarrow> bytes \<Rightarrow> civil \<Rightarrow> 's \<Rightarrow> 's \<times> nat \<times> err option"
  wwt_write :: "'k \<Rightarrow> bytes \<Rightarrow> civil \<Rightarrow> 's \<Rightarrow> 's \<times> nat \<times> err option"
  wwt_close :: "'k \<Rightarrow> 's \<Rightarrow> 's \<times> err option"

subsection \<open>The dispatcher's calls through \<open>IWriterWithTime\<close>\<close>

text \<open>
  \<open>asyncLogRun\<close> calls \<open>w.WriteWithTime(ii.msg, ii.t)\<close> on the routed
  writer and \<open>w.Close()\<close> on each writer of the route, dropping the results:
  these are the \<open>deliver\<close> and \<open>close\<close> arguments of \<open>alog_exec\<close>.
\<close>

definition iwt_deliver :: "('k, 's) iwriter_with_time \<Rightarrow> 'k \<Rightarrow> bytes \<Rightarrow> civil \<Rightarrow> 's \<Rightarrow> 's" where
  "iwt_deliver iw k p t s = fst (wwt_write_with_time iw k p t s)"

definition iwt_close :: "('k, 's) iwriter_with_time \<Rightarrow> 'k \<Rightarrow> 's \<Rightarrow> 's" where
  "iwt_close iw k s = fst (wwt_close iw k s)"

subsection \<open>The implementations\<close>

text \<open>\<open>*asyncLog\<close> as the \<open>IWriter\<close> of a logger.\<close>

definition alog_iwriter :: "'k alog iwriter" where
  "alog_iwriter = \<lparr>iw_write = async_write\<rparr>"

text \<open>\<open>*simpleFormater\<close> as an \<open>IFormater\<close>.\<close>

definition simple_iformater :: "formater \<Rightarrow> iformater" where
  "simple_iformater f = \<lparr>if_format = format f\<rparr>"

text \<open>
  \<open>*DailyWriter\<close> as an \<open>IWriterWithTime\<close>: one writer (key \<open>()\<close>) over the
  file system and its own state; each method is one step under the
  writer's mutex, and \<open>Close()\<close> leaves the file table as it is.
\<close>

definition dw_iwt :: "dw_globals \<Rightarrow> (unit, fsys \<times> dwriter) iwriter_with_time" where
  "dw_iwt g =
     \<lparr>wwt_write_with_time = (\<lambda>k p t st. case write_with_time g (fst st) (snd st) p t of
                                         (fs', w', n, e) \<Rightarrow> ((fs', w'), n, e)),
      wwt_write = (\<lambda>k p clock st. case dw_write g (fst st) (snd st) p clock of
                                   (fs', w', n, e) \<Rightarrow> ((fs', w'), n, e)),
      wwt_close = (\<lambda>k st. case dw_close (fst st) (snd st) of (w', e) \<Rightarrow> ((fst st, w'), e))\<rparr>"

subsection \<open>Facts for the clients\<close>

lemma iwt_deliver_dw [simp]:
  "iwt_deliver (dw_iwt g) k p t (fs, w) = (case write_with_time g fs w p t of (fs', w', _) \<Rightarrow> (fs', w'))"
  by (simp add: iwt_deliver_def dw_iwt_def split: prod.splits)

lemma iwt_close_dw [simp]: "iwt_close (dw_iwt g) k (fs, w) = (fs, fst (dw_close fs w))"
  by (simp add: iwt_close_def dw_iwt_def split: prod.splits)

lemma iw_write_alog [simp]: "iw_write alog_iwriter = async_write"
  by (simp add: alog_iwriter_def)

end
