(* ===== verification/Retention.thy ===== *)
theory Retention
  imports Rotator
begin

text \<open>
  The retention compactor of \<open>dailywriter.go\<close>: \<open>oldLogFiles\<close> lists the
  writer's earlier files in its directory (plain and compressed), sorted
  newest first (\<open>byFormatTime\<close>); \<open>doClean\<close> removes those older than the
  retention cutoff and compresses the remaining plain ones with
  \<open>compressLogFile\<close>; \<open>cleanRun\<close> is the background goroutine that runs
  \<open>doClean\<close> whenever \<open>clean()\<close> has signalled.  The gzip stream is the
  parameter \<open>gz\<close>, a function from the file's bytes to the compressed bytes.
\<close>

text \<open>\<open>logInfo\<close>: the time decoded from the name and the directory entry's name.\<close>

record log_info =
  li_time :: civil
  li_name :: string

fun is_panic :: "err \<Rightarrow> bool" where
  "is_panic (Panic s) = True"
| "is_panic _ = False"

definition cons_log :: "log_info \<Rightarrow> err + log_info list \<Rightarrow> err + log_info list" where
  "cons_log f r = (case r of Inl e \<Rightarrow> Inl e | Inr fs \<Rightarrow> Inr (f # fs))"

text \<open>
  The loop of \<open>oldLogFiles\<close> over the directory entries: directories and the
  current file are skipped, a name is decoded first with the plain suffix,
  then with the suffix followed by \<open>.gz\<close>; an undecodable name is skipped.
  A panic of \<open>timeForName\<close> is not recovered and ends the listing.
\<close>

fun collect_logs :: "dw_globals \<Rightarrow> dwriter \<Rightarrow> (string \<times> fentry) list \<Rightarrow> err + log_info list" where
  "collect_logs g w [] = Inr []"
| "collect_logs g w ((n, Directory m) # es) = collect_logs g w es"
| "collect_logs g w ((n, RegFile m d) # es) =
     (if n = path_base (cur_filename w) then collect_logs g w es
      else case time_for_name g n (filename_prefix w) (filename_suffix w) of
        Inr t \<Rightarrow> cons_log \<lparr>li_time = t, li_name = n\<rparr> (collect_logs g w es)
      | Inl e \<Rightarrow>
          if is_panic e then Inl e
          else case time_for_name g n (filename_prefix w) (filename_suffix w @ compress_suffix) of
            Inr t \<Rightarrow> cons_log \<lparr>li_time = t, li_name = n\<rparr> (collect_logs g w es)
          | Inl e' \<Rightarrow> if is_panic e' then Inl e' else collect_logs g w es)"

text \<open>
  \<open>sort.Sort(byFormatTime(logFiles))\<close>: newest first.  Go's \<open>sort.Sort\<close> is
  not stable; the model keeps entries with equal times in directory order,
  one of the orders Go may produce.
\<close>

definition by_format_time :: "log_info list \<Rightarrow> log_info list" where
  "by_format_time l = sort_key (\<lambda>f. - abs_nanos (li_time f)) l"

definition old_log_files :: "dw_globals \<Rightarrow> fsys \<Rightarrow> dwriter \<Rightarrow> err + log_info list" where
  "old_log_files g fs w =
     (case read_dir fs (dir w) of
        Inl e \<Rightarrow> Inl e
      | Inr es \<Rightarrow> (case collect_logs g w es of Inl e \<Rightarrow> Inl e | Inr l \<Rightarrow> Inr (by_format_time l)))"

text \<open>\<open>if err == nil && errX != nil { err = errX }\<close>: the first error is kept.\<close>

definition first_err :: "err option \<Rightarrow> err option \<Rightarrow> err option" where
  "first_err e e' = (case e of None \<Rightarrow> e' | Some x \<Rightarrow> Some x)"

fun fentry_mode :: "fentry \<Rightarrow> nat" where
  "fentry_mode (RegFile m d) = m"
| "fentry_mode (Directory m) = m"

text \<open>
  \<open>compressLogFile(oldfile, newfile)\<close>.  \<open>io.Copy\<close> through the gzip writer
  and the explicit \<open>gz.Close()\<close> together write \<open>gz d\<close> to the new file; a
  write error of either is the one write error here.  The deferred clean-up
  closure tests the \<open>err\<close> of line 406, which is \<open>nil\<close> once the new file is
  open (the later errors are shadowed by \<open>if _, err := ...\<close>), so it never
  removes the new file nor wraps the error: the model has neither.  Reading
  a directory fails with \<open>EISDIR\<close>.
\<close>

definition compress_log_file :: "(bytes \<Rightarrow> bytes) \<Rightarrow> fsys \<Rightarrow> string \<Rightarrow> string \<Rightarrow> fsys \<times> err option" where
  "compress_log_file gz fs oldfile newfile =
     (case os_open_file fs oldfile OpenRead 0 of
        Inl e \<Rightarrow> (fs, Some e)
      | Inr (fa, f) \<Rightarrow>
          (case os_stat fa oldfile of
             Inl e \<Rightarrow> (fa, Some e)
           | Inr fi \<Rightarrow>
               (case os_open_file fa newfile OpenNewTrunc (fentry_mode fi) of
                  Inl e \<Rightarrow> (fa, Some e)
                | Inr (fb, gzf) \<Rightarrow>
                    (case file_data fb oldfile of
                       None \<Rightarrow> (fb, Some (PathError ''read'' oldfile EISDIR))
                     | Some d \<Rightarrow>
                         (case fh_write fb gzf (gz d) of
                            (fc, _, _, Some e) \<Rightarrow> (fc, Some e)
                          | (fc, _, _, None) \<Rightarrow>
                              (case os_remove fc oldfile of
                                 Inl e \<Rightarrow> (fc, Some e)
                               | Inr fd \<Rightarrow> (fd, None)))))))"

text \<open>The two loops at the end of \<open>doClean\<close>.\<close>

fun remove_all :: "fsys \<Rightarrow> string \<Rightarrow> log_info list \<Rightarrow> err option \<Rightarrow> fsys \<times> err option" where
  "remove_all fs d [] e = (fs, e)"
| "remove_all fs d (f # fl) e =
     (case os_remove fs (path_join d (li_name f)) of
        Inl e' \<Rightarrow> remove_all fs d fl (first_err e (Some e'))
      | Inr fs' \<Rightarrow> remove_all fs' d fl e)"

fun compress_all ::
  "(bytes \<Rightarrow> bytes) \<Rightarrow> fsys \<Rightarrow> string \<Rightarrow> log_info list \<Rightarrow> err option \<Rightarrow> fsys \<times> err option" where
  "compress_all gz fs d [] e = (fs, e)"
| "compress_all gz fs d (f # fl) e =
     (let fn = path_join d (li_name f) in
      case compress_log_file gz fs fn (fn @ compress_suffix) of
        (fs', e') \<Rightarrow> compress_all gz fs' d fl (first_err e e'))"

text \<open>
  The retention cutoff \<open>time.Now().Local().Add(-1 * diff)\<close> with
  \<open>diff = defaultTimeInterval * time.Duration(int64(this.reserve))\<close>: both
  products are \<open>int64\<close> products and wrap, so the cutoff is the clock plus
  the signed value of \<open>-1 * diff\<close> as a 64-bit word, in nanoseconds.
\<close>

definition clean_cutoff :: "dw_globals \<Rightarrow> dwriter \<Rightarrow> civil \<Rightarrow> int" where
  "clean_cutoff g w now =
     abs_nanos now + sint ((- 1) * (time_interval g * word_of_int (reserve w)) :: 64 word)"

text \<open>The two lists \<open>doClean\<close> builds: the files to remove and the files to compress.\<close>

definition clean_lists :: "dw_globals \<Rightarrow> dwriter \<Rightarrow> civil \<Rightarrow> log_info list \<Rightarrow> log_info list \<times> log_info list" where
  "clean_lists g w now files =
     (let (rms, files') =
            (if reserve w > 0 then partition (\<lambda>f. abs_nanos (li_time f) < clean_cutoff g w now) files
             else ([], files))
      in (rms, if compress w then filter (\<lambda>f. \<not> has_suffix (li_name f) compress_suffix) files' else []))"

definition do_clean :: "(bytes \<Rightarrow> bytes) \<Rightarrow> dw_globals \<Rightarrow> civil \<Rightarrow> fsys \<Rightarrow> dwriter \<Rightarrow> fsys \<times> err option" where
  "do_clean gz g now fs w =
     (if reserve w = 0 \<and> \<not> compress w then (fs, None)
      else case old_log_files g fs w of
        Inl e \<Rightarrow> (fs, Some e)
      | Inr files \<Rightarrow>
          (case clean_lists g w now files of
             (rms, cps) \<Rightarrow>
               (case remove_all fs (dir w) rms None of
                  (fr, e1) \<Rightarrow> compress_all gz fr (dir w) cps e1)))"

text \<open>
  One iteration of \<open>cleanRun\<close>: the goroutine takes the pending signal off
  \<open>cleanCh\<close> and runs \<open>doClean\<close> at clock \<open>now\<close>; its error is discarded.
\<close>

definition clean_run :: "(bytes \<Rightarrow> bytes) \<Rightarrow> dw_globals \<Rightarrow> civil \<Rightarrow> fsys \<Rightarrow> dwriter \<Rightarrow> fsys \<times> dwriter" where
  "clean_run gz g now fs w =
     (if clean_pending w then (fst (do_clean gz g now fs w), w\<lparr>clean_pending := False\<rparr>) else (fs, w))"

subsection \<open>What a clean run promises\<close>

text \<open>
  The contents of the files (\<open>file_data\<close>) after a clean that meets no
  error, described at once rather than as a sequence of system calls: each
  file in \<open>cps\<close> has its compressed image under its name followed by \<open>.gz\<close>
  and is itself gone, each file in \<open>rms\<close> is gone, every other path keeps
  its contents.
\<close>

fun compressed_view ::
  "(bytes \<Rightarrow> bytes) \<Rightarrow> string \<Rightarrow> string list \<Rightarrow> (string \<Rightarrow> bytes option) \<Rightarrow> string \<Rightarrow> bytes option" where
  "compressed_view gz d [] V p = V p"
| "compressed_view gz d (n # ns) V p =
     (if p = path_join d (n @ compress_suffix) then map_option gz (V (path_join d n))
      else if p = path_join d n then None else compressed_view gz d ns V p)"

definition clean_spec ::
  "(bytes \<Rightarrow> bytes) \<Rightarrow> string \<Rightarrow> string list \<Rightarrow> string list \<Rightarrow> (string \<Rightarrow> bytes option) \<Rightarrow> string \<Rightarrow> bytes option" where
  "clean_spec gz d rms cps V =
     compressed_view gz d cps (\<lambda>p. if p \<in> set (map (path_join d) rms) then None else V p)"

text \<open>
  A listed file that \<open>compressLogFile\<close> can compress without error: a plain
  name in the directory, a regular file, and no directory in the way of
  its \<open>.gz\<close> name.
\<close>

definition compressible :: "fsys \<Rightarrow> string \<Rightarrow> log_info \<Rightarrow> bool" where
  "compressible fs d f \<longleftrightarrow> CHR ''/'' \<notin> set (li_name f) \<and> \<not> has_suffix (li_name f) compress_suffix \<and>
     (\<exists>m dat. fs_lookup fs (path_join d (li_name f)) = Some (RegFile m dat)) \<and>
     (\<forall>m. fs_lookup fs (path_join d (li_name f @ compress_suffix)) \<noteq> Some (Directory m))"

subsection \<open>Example inputs\<close>

text \<open>
  A writer with daily files (\<open>SetTimeType("day")\<close>, so the names carry
  \<open>2006-01-02\<close> dates) in \<open>/var/log\<close>, keeping two days and compressing, at
  the clock \<open>t0\<close> (2019-07-12 09:05:03); the gzip stream is a stand-in that
  prefixes the gzip magic number.
\<close>

definition gday :: dw_globals where "gday = apply_granularity Day dw_globals_init"

definition gz0 :: "bytes \<Rightarrow> bytes" where "gz0 b = [31, 139] @ b"

definition fs4 :: fsys where
  "fs4 = \<lparr>entries = [(''/var/log'', Directory 484), (''/var/log/app_2019-07-09.log'', RegFile 420 [1]),
                     (''/var/log/app_2019-07-11.log'', RegFile 420 [2]),
                     (''/var/log/app_2019-07-12.log'', RegFile 420 [3]), (''/var/log/notes.txt'', RegFile 420 [4])],
          denied = [], no_space = False\<rparr>"

definition w4 :: dwriter where
  "w4 = w0\<lparr>cur_filename := ''/var/log/app_2019-07-12.log''\<rparr>"

definition log_09 :: log_info where
  "log_09 = \<lparr>li_time = civil0\<lparr>year := 2019, month := 7, day := 9\<rparr>, li_name = ''app_2019-07-09.log''\<rparr>"

definition log_11 :: log_info where
  "log_11 = \<lparr>li_time = civil0\<lparr>year := 2019, month := 7, day := 11\<rparr>, li_name = ''app_2019-07-11.log''\<rparr>"

definition fs5 :: fsys where
  "fs5 = \<lparr>entries = [(''/var/log'', Directory 484), (''/var/log/a.log'', RegFile 420 [5]),
                     (''/var/log/a.log.gz'', RegFile 384 [9, 9])],
          denied = [], no_space = False\<rparr>"

definition fs7 :: fsys where
  "fs7 = \<lparr>entries = [(''/var/log'', Directory 484), (''/var/log/app.log'', RegFile 420 [1])],
          denied = [], no_space = False\<rparr>"

subsection \<open>Listing, removal and compression\<close>


lemma first_err_simps [simp]: "first_err None e = e" "first_err (Some x) e = Some x" "first_err e None = e"
  by (simp_all add: first_err_def split: option.splits)

lemma remove_all_view:
  "denied fs = [] \<Longrightarrow>
   fs_lookup (fst (remove_all fs d l e)) p =
     (if p \<in> set (map (\<lambda>f. path_join d (li_name f)) l) then None else fs_lookup fs p)"
proof (induction l arbitrary: fs e)
  case (Cons f l)
  then show ?case by (auto simp: os_remove_def split: option.splits)
qed simp

lemma remove_all_err:
  "denied fs = [] \<Longrightarrow> distinct (map li_name l) \<Longrightarrow>
   \<forall>f\<in>set l. fs_lookup fs (path_join d (li_name f)) \<noteq> None \<Longrightarrow> snd (remove_all fs d l e) = e"
proof (induction l arbitrary: fs e)
  case (Cons f l)
  obtain x where x: "fs_lookup fs (path_join d (li_name f)) = Some x" using Cons.prems by auto
  have "snd (remove_all (fs_del fs (path_join d (li_name f))) d l e) = e"
    using Cons.prems by (intro Cons.IH) (auto simp: image_iff)
  then show ?case using Cons.prems x by (simp add: os_remove_def)
qed simp

lemma collect_logs_names:
  "collect_logs g w es = Inr l \<Longrightarrow> f \<in> set l \<Longrightarrow>
   (\<exists>m dat. (li_name f, RegFile m dat) \<in> set es) \<and> li_name f \<noteq> path_base (cur_filename w)"
proof (induction g w es arbitrary: l rule: collect_logs.induct)
  case (3 g w n m d es)
  then show ?case
    by (fastforce simp: cons_log_def split: if_splits sum.splits)
qed auto

lemma collect_logs_distinct:
  "collect_logs g w es = Inr l \<Longrightarrow> distinct (map fst es) \<Longrightarrow> distinct (map li_name l)"
proof (induction g w es arbitrary: l rule: collect_logs.induct)
  case (3 g w n m d es)
  have "n \<notin> li_name ` set l'" if "collect_logs g w es = Inr l'" for l'
    using collect_logs_names[OF that] "3.prems"(2) by (force simp: image_iff)
  with 3 show ?case by (auto simp: cons_log_def split: if_splits sum.splits)
qed auto

lemma old_log_files_Inr:
  assumes wf: "fs_wf fs" and r: "old_log_files g fs w = Inr files"
  shows "(\<exists>dm. fs_lookup fs (dir w) = Some (Directory dm)) \<and> distinct (map li_name files) \<and>
         (\<forall>f\<in>set files. (\<exists>m dat. fs_lookup fs (path_join (dir w) (li_name f)) = Some (RegFile m dat)) \<and>
             CHR ''/'' \<notin> set (li_name f) \<and> li_name f \<noteq> path_base (cur_filename w))"
proof -
  obtain es l where es: "read_dir fs (dir w) = Inr es" and l: "collect_logs g w es = Inr l"
    and files: "files = by_format_time l"
    using r by (auto simp: old_log_files_def split: sum.splits)
  have "distinct (map li_name l)" using collect_logs_distinct[OF l read_dir_distinct[OF wf es]] .
  then have "distinct (map li_name files)" by (simp add: files by_format_time_def distinct_map)
  moreover have "\<forall>f\<in>set files. (\<exists>m dat. fs_lookup fs (path_join (dir w) (li_name f)) = Some (RegFile m dat)) \<and>
             CHR ''/'' \<notin> set (li_name f) \<and> li_name f \<noteq> path_base (cur_filename w)"
    using collect_logs_names[OF l] read_dir_member[OF wf es] by (fastforce simp: files by_format_time_def)
  ultimately show ?thesis using read_dir_Inr[OF es] by blast
qed

lemma compress_log_file_frame:
  "p \<noteq> old \<Longrightarrow> p \<noteq> new \<Longrightarrow> fs_lookup (fst (compress_log_file gz fs old new)) p = fs_lookup fs p"
  by (auto simp: compress_log_file_def os_open_file_def os_stat_def fh_write_def os_remove_def Let_def
           split: sum.splits option.splits fentry.splits prod.splits if_splits)

lemma compress_log_file_fields [simp]:
  "denied (fst (compress_log_file gz fs old new)) = denied fs"
  "no_space (fst (compress_log_file gz fs old new)) = no_space fs"
  by (auto simp: compress_log_file_def os_open_file_def os_stat_def fh_write_def os_remove_def Let_def
           split: sum.splits option.splits fentry.splits prod.splits if_splits)

text \<open>The open of the new file in \<open>compressLogFile\<close> succeeds and leaves it empty.\<close>

lemma open_trunc_ok:
  assumes "new \<notin> set (denied fs)" "\<forall>m'. fs_lookup fs new \<noteq> Some (Directory m')"
    and "fs_lookup fs new = None \<Longrightarrow> \<exists>dm. fs_lookup fs (path_dir new) = Some (Directory dm)"
  obtains mm where "os_open_file fs new OpenNewTrunc m =
    Inr (fs_put fs new (RegFile mm []), \<lparr>fh_path = new, fh_append = False, fh_offset = 0\<rparr>)"
proof (cases "fs_lookup fs new")
  case None
  then show ?thesis using assms that by (auto simp: os_open_file_def)
next
  case (Some e)
  then show ?thesis using assms that by (cases e) (auto simp: os_open_file_def)
qed

lemma compress_log_file_ok:
  assumes old: "fs_lookup fs old = Some (RegFile m dat)" and ne: "old \<noteq> new"
    and den: "old \<notin> set (denied fs)" "new \<notin> set (denied fs)" and sp: "\<not> no_space fs"
    and nd: "\<forall>m'. fs_lookup fs new \<noteq> Some (Directory m')"
    and par: "fs_lookup fs new = None \<Longrightarrow> \<exists>dm. fs_lookup fs (path_dir new) = Some (Directory dm)"
  shows "\<exists>mm. compress_log_file gz fs old new = (fs_del (fs_put fs new (RegFile mm (gz dat))) old, None)"
proof -
  obtain mm where o: "os_open_file fs new OpenNewTrunc m =
    Inr (fs_put fs new (RegFile mm []), \<lparr>fh_path = new, fh_append = False, fh_offset = 0\<rparr>)"
    using open_trunc_ok[OF den(2) nd par] by blast
  have "compress_log_file gz fs old new = (fs_del (fs_put fs new (RegFile mm (gz dat))) old, None)"
    using old ne den sp o
    by (simp add: compress_log_file_def os_open_file_def os_stat_def fh_write_def os_remove_def
                  file_data_def write_at_def)
  then show ?thesis ..
qed

lemma remove_all_frame:
  "p \<notin> set (map (\<lambda>f. path_join d (li_name f)) l) \<Longrightarrow> fs_lookup (fst (remove_all fs d l e)) p = fs_lookup fs p"
proof (induction l arbitrary: fs e)
  case (Cons f l)
  then show ?case by (auto simp: os_remove_def split: option.splits)
qed simp

lemma remove_all_fields [simp]:
  "denied (fst (remove_all fs d l e)) = denied fs" "no_space (fst (remove_all fs d l e)) = no_space fs"
  by (induction l arbitrary: fs e) (auto simp: os_remove_def split: option.splits sum.splits)

lemma compress_all_frame:
  "\<forall>f\<in>set l. p \<noteq> path_join d (li_name f) \<and> p \<noteq> path_join d (li_name f) @ compress_suffix \<Longrightarrow>
   fs_lookup (fst (compress_all gz fs d l e)) p = fs_lookup fs p"
proof (induction l arbitrary: fs e)
  case (Cons f l)
  then show ?case by (simp add: Let_def split_beta compress_log_file_frame)
qed simp

lemma compress_all_fields [simp]:
  "denied (fst (compress_all gz fs d l e)) = denied fs" "no_space (fst (compress_all gz fs d l e)) = no_space fs"
  by (induction l arbitrary: fs e) (simp_all add: Let_def split_beta)

lemma compressed_view_step:
  assumes "n \<notin> set ns" "\<not> has_suffix n compress_suffix" "\<forall>n'\<in>set ns. \<not> has_suffix n' compress_suffix"
  shows "compressed_view gz d ns
           (\<lambda>q. if q = path_join d n then None
                else if q = path_join d (n @ compress_suffix) then map_option gz (V (path_join d n)) else V q) p =
         compressed_view gz d (n # ns) V p"
  using assms
proof (induction ns)
  case Nil
  then show ?case by auto
next
  case (Cons n' ns)
  then show ?case by auto
qed

lemma compress_all_effect:
  "denied fs = [] \<Longrightarrow> \<not> no_space fs \<Longrightarrow> fs_lookup fs d = Some (Directory dm) \<Longrightarrow>
   distinct (map li_name l) \<Longrightarrow> \<forall>f\<in>set l. compressible fs d f \<Longrightarrow>
   snd (compress_all gz fs d l e) = e \<and>
   file_data (fst (compress_all gz fs d l e)) p = compressed_view gz d (map li_name l) (file_data fs) p"
proof (induction l arbitrary: fs e)
  case (Cons f l)
  let ?n = "li_name f"
  obtain m dat where old: "fs_lookup fs (path_join d ?n) = Some (RegFile m dat)"
    using Cons.prems(5) by (auto simp: compressible_def)
  have nd: "\<forall>m'. fs_lookup fs (path_join d (?n @ compress_suffix)) \<noteq> Some (Directory m')"
    and sl: "CHR ''/'' \<notin> set ?n" and gz: "\<not> has_suffix ?n compress_suffix"
    using Cons.prems(5) by (auto simp: compressible_def)
  have "path_dir (path_join d (?n @ compress_suffix)) = d"
    using sl by (simp add: compress_suffix_def)
  then obtain mm where c: "compress_log_file gz fs (path_join d ?n) (path_join d (?n @ compress_suffix)) =
      (fs_del (fs_put fs (path_join d (?n @ compress_suffix)) (RegFile mm (gz dat))) (path_join d ?n), None)"
    using compress_log_file_ok[OF old _ _ _ Cons.prems(2) nd] Cons.prems(1,3) by (auto simp: compress_suffix_def)
  let ?fs1 = "fs_del (fs_put fs (path_join d (?n @ compress_suffix)) (RegFile mm (gz dat))) (path_join d ?n)"
  have "compressible ?fs1 d f'" if f': "f' \<in> set l" for f'
  proof -
    have "li_name f' \<noteq> ?n" using Cons.prems(4) f' by (auto simp: image_iff)
    moreover have "\<not> has_suffix (li_name f') compress_suffix"
      using f' Cons.prems(5) by (auto simp: compressible_def)
    ultimately show ?thesis using Cons.prems(5) f' gz by (auto simp: compressible_def)
  qed
  then have "\<forall>f'\<in>set l. compressible ?fs1 d f'" by blast
  then have ih: "snd (compress_all gz ?fs1 d l e) = e \<and>
     file_data (fst (compress_all gz ?fs1 d l e)) p = compressed_view gz d (map li_name l) (file_data ?fs1) p"
    using Cons.prems by (intro Cons.IH) auto
  have "file_data ?fs1 = (\<lambda>q. if q = path_join d ?n then None
      else if q = path_join d (?n @ compress_suffix) then map_option gz (file_data fs (path_join d ?n))
      else file_data fs q)"
    using old by (auto simp: file_data_def)
  moreover have "?n \<notin> set (map li_name l)" using Cons.prems(4) by simp
  moreover have "\<forall>n'\<in>set (map li_name l). \<not> has_suffix n' compress_suffix"
    using Cons.prems(5) by (auto simp: compressible_def)
  ultimately have "compressed_view gz d (map li_name l) (file_data ?fs1) p =
      compressed_view gz d (map li_name (f # l)) (file_data fs) p"
    using compressed_view_step[OF _ gz] by simp
  then show ?case using ih c by (simp add: Let_def del: compressed_view.simps)
qed simp

lemma clean_lists_props:
  assumes "clean_lists g w now files = (rms, cps)"
  shows "f \<in> set rms \<longleftrightarrow> f \<in> set files \<and> 0 < reserve w \<and> abs_nanos (li_time f) < clean_cutoff g w now"
    and "f \<in> set cps \<longleftrightarrow> f \<in> set files \<and> compress w \<and> \<not> has_suffix (li_name f) compress_suffix \<and>
           \<not> (0 < reserve w \<and> abs_nanos (li_time f) < clean_cutoff g w now)"
    and "distinct (map li_name files) \<Longrightarrow> distinct (map li_name (rms @ cps))"
proof -
  let ?P = "\<lambda>f. 0 < reserve w \<and> abs_nanos (li_time f) < clean_cutoff g w now"
  have r: "rms = filter ?P files"
    and c: "cps = (if compress w then filter (\<lambda>f. \<not> has_suffix (li_name f) compress_suffix) (filter (Not \<circ> ?P) files) else [])"
    using assms by (auto simp: clean_lists_def Let_def split: if_splits)
  show "f \<in> set rms \<longleftrightarrow> f \<in> set files \<and> 0 < reserve w \<and> abs_nanos (li_time f) < clean_cutoff g w now"
    using r by auto
  show "f \<in> set cps \<longleftrightarrow> f \<in> set files \<and> compress w \<and> \<not> has_suffix (li_name f) compress_suffix \<and>
           \<not> (0 < reserve w \<and> abs_nanos (li_time f) < clean_cutoff g w now)"
    using c by auto
  assume d: "distinct (map li_name files)"
  then have inj: "inj_on li_name (set files)" by (simp add: distinct_map)
  have "li_name f1 \<noteq> li_name f2" if "f1 \<in> set rms" "f2 \<in> set cps" for f1 f2
    using that r c inj by (auto simp: inj_on_def split: if_splits)
  then show "distinct (map li_name (rms @ cps))"
    using d r c by (auto simp: distinct_map_filter)
qed

lemma do_clean_effect:
  assumes wf: "fs_wf fs" and den: "denied fs = []" and sp: "\<not> no_space fs"
    and ol: "old_log_files g fs w = Inr files" and cl: "clean_lists g w now files = (rms, cps)"
    and nd: "\<forall>f\<in>set cps. \<forall>m. fs_lookup fs (path_join (dir w) (li_name f @ compress_suffix)) \<noteq> Some (Directory m)"
  shows "snd (do_clean gz g now fs w) = None \<and>
         file_data (fst (do_clean gz g now fs w)) =
           clean_spec gz (dir w) (map li_name rms) (map li_name cps) (file_data fs)"
proof (cases "reserve w = 0 \<and> \<not> compress w")
  case True
  then have "rms = []" "cps = []" using cl by (auto simp: clean_lists_def)
  then show ?thesis using True by (simp add: do_clean_def clean_spec_def fun_eq_iff)
next
  case False
  let ?d = "dir w"
  let ?fr = "fst (remove_all fs ?d rms None)"
  obtain dm where dm: "fs_lookup fs ?d = Some (Directory dm)" and dist: "distinct (map li_name files)"
    and fl: "\<forall>f\<in>set files. (\<exists>m dat. fs_lookup fs (path_join ?d (li_name f)) = Some (RegFile m dat)) \<and>
             CHR ''/'' \<notin> set (li_name f)"
    using old_log_files_Inr[OF wf ol] by blast
  have d2: "distinct (map li_name (rms @ cps))" using clean_lists_props(3)[OF cl dist] .
  have rms: "f \<in> set rms \<Longrightarrow> f \<in> set files" for f using clean_lists_props(1)[OF cl] by blast
  have cps: "f \<in> set cps \<Longrightarrow> f \<in> set files \<and> \<not> has_suffix (li_name f) compress_suffix" for f
    using clean_lists_props(2)[OF cl] by blast
  have e1: "snd (remove_all fs ?d rms None) = None"
    using d2 fl rms den by (intro remove_all_err) auto
  have v1: "fs_lookup ?fr p = (if p \<in> set (map (\<lambda>f. path_join ?d (li_name f)) rms) then None else fs_lookup fs p)" for p
    using remove_all_view[OF den] .
  have "compressible ?fr ?d f" if f: "f \<in> set cps" for f
  proof -
    have "li_name f \<notin> li_name ` set rms" using d2 f by auto
    then show ?thesis using f cps[OF f] fl nd v1 by (auto simp: compressible_def image_iff)
  qed
  moreover have "fs_lookup ?fr ?d = Some (Directory dm)" using v1 dm by auto
  moreover have "distinct (map li_name cps)" using d2 by simp
  ultimately have "snd (compress_all gz ?fr ?d cps None) = None \<and>
     file_data (fst (compress_all gz ?fr ?d cps None)) p = compressed_view gz ?d (map li_name cps) (file_data ?fr) p" for p
    using den sp by (intro compress_all_effect) auto
  moreover have "file_data ?fr = (\<lambda>p. if p \<in> set (map (path_join ?d) (map li_name rms)) then None else file_data fs p)"
    using v1 by (auto simp: file_data_def fun_eq_iff)
  moreover have "do_clean gz g now fs w = compress_all gz ?fr ?d cps None"
    using False ol cl e1 by (simp add: do_clean_def split_beta del: de_Morgan_conj)
  ultimately show ?thesis by (simp add: clean_spec_def fun_eq_iff)
qed

lemma compressed_view_target:
  "n \<in> set ns \<Longrightarrow> \<forall>n'\<in>set ns. \<not> has_suffix n' compress_suffix \<Longrightarrow>
   compressed_view gz d ns V (path_join d (n @ compress_suffix)) = map_option gz (V (path_join d n))"
  by (induction ns) auto

lemma compressed_view_source:
  "n \<in> set ns \<Longrightarrow> \<not> has_suffix n compress_suffix \<Longrightarrow> compressed_view gz d ns V (path_join d n) = None"
  by (induction ns) auto

lemma listed_name_in:
  assumes "distinct (map li_name files)" "f \<in> set files" "set l \<subseteq> set files"
  shows "li_name f \<in> li_name ` set l \<longleftrightarrow> f \<in> set l"
  using assms by (auto simp: distinct_map inj_on_def)

lemma clean_view_listed:
  assumes wf: "fs_wf fs" and den: "denied fs = []" and sp: "\<not> no_space fs"
    and ol: "old_log_files g fs w = Inr files" and cl: "clean_lists g w now files = (rms, cps)"
    and nd: "\<forall>f\<in>set cps. \<forall>m. fs_lookup fs (path_join (dir w) (li_name f @ compress_suffix)) \<noteq> Some (Directory m)"
    and f: "f \<in> set files"
  shows "snd (do_clean gz g now fs w) = None"
    and "f \<in> set rms \<Longrightarrow> \<not> compress w \<Longrightarrow> file_data (fst (do_clean gz g now fs w)) (path_join (dir w) (li_name f)) = None"
    and "f \<notin> set rms \<Longrightarrow> f \<notin> set cps \<Longrightarrow> \<not> compress w \<Longrightarrow>
         file_data (fst (do_clean gz g now fs w)) (path_join (dir w) (li_name f)) = file_data fs (path_join (dir w) (li_name f))"
    and "f \<in> set cps \<Longrightarrow>
         file_data (fst (do_clean gz g now fs w)) (path_join (dir w) (li_name f @ compress_suffix)) =
           map_option gz (file_data fs (path_join (dir w) (li_name f))) \<and>
         file_data (fst (do_clean gz g now fs w)) (path_join (dir w) (li_name f)) = None"
proof -
  have dist: "distinct (map li_name files)" using old_log_files_Inr[OF wf ol] by blast
  have sub: "set rms \<subseteq> set files" "set cps \<subseteq> set files"
    using clean_lists_props(1,2)[OF cl] by blast+
  have cgz: "\<forall>n'\<in>set (map li_name cps). \<not> has_suffix n' compress_suffix"
    using clean_lists_props(2)[OF cl] by auto
  have r: "snd (do_clean gz g now fs w) = None \<and>
         file_data (fst (do_clean gz g now fs w)) =
           clean_spec gz (dir w) (map li_name rms) (map li_name cps) (file_data fs)"
    using nd by (intro do_clean_effect[OF wf den sp ol cl])
  then show "snd (do_clean gz g now fs w) = None" by blast
  have nc: "\<not> compress w \<Longrightarrow> cps = []" using cl by (auto simp: clean_lists_def Let_def split: prod.splits)
  show "f \<in> set rms \<Longrightarrow> \<not> compress w \<Longrightarrow> file_data (fst (do_clean gz g now fs w)) (path_join (dir w) (li_name f)) = None"
    using r nc by (auto simp: clean_spec_def)
  show "f \<notin> set rms \<Longrightarrow> f \<notin> set cps \<Longrightarrow> \<not> compress w \<Longrightarrow>
        file_data (fst (do_clean gz g now fs w)) (path_join (dir w) (li_name f)) = file_data fs (path_join (dir w) (li_name f))"
    using r nc listed_name_in[OF dist f sub(1)] by (auto simp: clean_spec_def)
  assume c: "f \<in> set cps"
  have nr: "li_name f \<notin> li_name ` set rms"
    using clean_lists_props(3)[OF cl dist] c by auto
  show "file_data (fst (do_clean gz g now fs w)) (path_join (dir w) (li_name f @ compress_suffix)) =
           map_option gz (file_data fs (path_join (dir w) (li_name f))) \<and>
         file_data (fst (do_clean gz g now fs w)) (path_join (dir w) (li_name f)) = None"
  proof -
    have n: "li_name f \<in> set (map li_name cps)" using c by simp
    have "\<not> has_suffix (li_name f) compress_suffix" using c cgz by simp
    then show ?thesis
      using r nr compressed_view_target[OF n cgz] compressed_view_source[OF n]
      by (auto simp: clean_spec_def)
  qed
qed

lemma cutoff_word: "(- 1) * (i * word_of_int r) = (word_of_int (- (sint i * r)) :: 64 word)"
  by (metis word_of_int_sint_id wi_hom_mult mult_minus_left mult_1 wi_hom_neg)

lemma collect_logs_Inl: "collect_logs g w es = Inl e \<Longrightarrow> is_panic e"
  by (induction g w es rule: collect_logs.induct) (auto simp: cons_log_def split: if_splits sum.splits)

lemma collect_logs_panics:
  "(n, RegFile m d) \<in> set es \<Longrightarrow> n \<noteq> path_base (cur_filename w) \<Longrightarrow>
   time_for_name g n (filename_prefix w) (filename_suffix w) = Inl e \<Longrightarrow> is_panic e \<Longrightarrow>
   \<exists>e'. collect_logs g w es = Inl e'"
proof (induction es)
  case (Cons x es)
  obtain n' e' where x: "x = (n', e')" by fastforce
  show ?case
  proof (cases "x = (n, RegFile m d)")
    case True
    then show ?thesis using Cons.prems by simp
  next
    case False
    then have "\<exists>e'. collect_logs g w es = Inl e'" using Cons by auto
    then show ?thesis using x by (cases e') (auto simp: cons_log_def split: sum.splits)
  qed
qed simp

lemma clean_lists_cases:
  obtains rms cps where "clean_lists g w now files = (rms, cps)"
  by (cases "clean_lists g w now files") blast

text \<open>
  C6: when the directory can be listed and no remove, open
  or write fails (nothing denied, space left, no directory in the way of a
  \<open>.gz\<close> name), \<open>doClean\<close> returns no error and leaves exactly the file
  contents that \<open>clean_spec\<close> describes: the expired files are gone, each
  kept plain file is replaced by its compressed image under its name plus
  \<open>.gz\<close>, and every other path keeps its contents.
\<close>

theorem do_clean_refines:
  assumes "fs_wf fs" "denied fs = []" "\<not> no_space fs"
    and "old_log_files g fs w = Inr files" "clean_lists g w now files = (rms, cps)"
    and "\<forall>f\<in>set cps. \<forall>m. fs_lookup fs (path_join (dir w) (li_name f @ compress_suffix)) \<noteq> Some (Directory m)"
    and "do_clean gz g now fs w = (fs', e)"
  shows "e = None \<and> file_data fs' = clean_spec gz (dir w) (map li_name rms) (map li_name cps) (file_data fs)"
  using do_clean_effect[OF assms(1-6), of gz] assms(7) by simp

text \<open>
  C8: with a positive reserve and no compression,
  a log file listed by \<open>oldLogFiles\<close> is deleted exactly when the time in its
  name is before the cutoff \<open>now - reserve * interval\<close>; otherwise its
  contents are unchanged.
\<close>

theorem clean_retention_boundary:
  assumes "fs_wf fs" "denied fs = []" "\<not> no_space fs" "\<not> compress w" "0 < reserve w"
    and "old_log_files g fs w = Inr files" "f \<in> set files"
  shows "file_data (fst (do_clean gz g now fs w)) (path_join (dir w) (li_name f)) =
           (if abs_nanos (li_time f) < clean_cutoff g w now then None
            else file_data fs (path_join (dir w) (li_name f)))"
proof -
  obtain rms cps where cl: "clean_lists g w now files = (rms, cps)" by (rule clean_lists_cases)
  have "f \<notin> set cps" using clean_lists_props(2)[OF cl] assms(4) by blast
  then show ?thesis
    using clean_view_listed(2,3)[OF assms(1-3,6) cl _ assms(7), of gz] clean_lists_props(1,2)[OF cl] assms(4,5,7)
    by auto
qed

text \<open>
  C9: with compression on, a listed plain file that
  is not expired ends up as its compressed image under its name plus \<open>.gz\<close>,
  and the plain file is removed.
\<close>

theorem clean_compresses_kept:
  assumes "fs_wf fs" "denied fs = []" "\<not> no_space fs" "compress w"
    and "old_log_files g fs w = Inr files" "f \<in> set files"
    and "\<not> has_suffix (li_name f) compress_suffix" "\<not> (0 < reserve w \<and> abs_nanos (li_time f) < clean_cutoff g w now)"
    and "\<forall>f\<in>set files. \<forall>m. fs_lookup fs (path_join (dir w) (li_name f @ compress_suffix)) \<noteq> Some (Directory m)"
  shows "snd (do_clean gz g now fs w) = None \<and>
         file_data (fst (do_clean gz g now fs w)) (path_join (dir w) (li_name f @ compress_suffix)) =
           map_option gz (file_data fs (path_join (dir w) (li_name f))) \<and>
         file_data (fst (do_clean gz g now fs w)) (path_join (dir w) (li_name f)) = None"
proof -
  obtain rms cps where cl: "clean_lists g w now files = (rms, cps)" by (rule clean_lists_cases)
  have nd: "\<forall>f\<in>set cps. \<forall>m. fs_lookup fs (path_join (dir w) (li_name f @ compress_suffix)) \<noteq> Some (Directory m)"
    using assms(9) clean_lists_props(2)[OF cl] by blast
  have "f \<in> set cps" using clean_lists_props(2)[OF cl] assms(4,6-8) by blast
  then show ?thesis using clean_view_listed(1,4)[OF assms(1-3,5) cl nd assms(6), of gz] by blast
qed

text \<open>
  C7: whatever the directory holds and whatever
  fails, \<open>doClean\<close> leaves the entry of the writer's current file as it was,
  provided that name does not itself end in \<open>.gz\<close>.
\<close>

theorem clean_keeps_current_file:
  assumes "fs_wf fs" "\<not> has_suffix (cur_filename w) compress_suffix"
  shows "fs_lookup (fst (do_clean gz g now fs w)) (cur_filename w) = fs_lookup fs (cur_filename w)"
proof (cases "old_log_files g fs w")
  case (Inr files)
  obtain rms cps where cl: "clean_lists g w now files = (rms, cps)" by (rule clean_lists_cases)
  have far: "cur_filename w \<noteq> path_join (dir w) (li_name f) \<and>
             cur_filename w \<noteq> path_join (dir w) (li_name f @ compress_suffix)" if "f \<in> set files" for f
  proof -
    have "CHR ''/'' \<notin> set (li_name f)" "li_name f \<noteq> path_base (cur_filename w)"
      using old_log_files_Inr[OF assms(1) Inr] that by blast+
    then have "cur_filename w \<noteq> path_join (dir w) (li_name f)" by auto
    moreover have "cur_filename w \<noteq> path_join (dir w) (li_name f @ compress_suffix)"
      using assms(2) by (metis has_suffix_append path_join_append)
    ultimately show ?thesis ..
  qed
  have "fs_lookup (fst (remove_all fs (dir w) rms None)) (cur_filename w) = fs_lookup fs (cur_filename w)"
    using far clean_lists_props(1)[OF cl] by (intro remove_all_frame) auto
  moreover have "fs_lookup (fst (compress_all gz fr (dir w) cps e)) (cur_filename w) = fs_lookup fr (cur_filename w)"
    for fr e using far clean_lists_props(2)[OF cl] by (intro compress_all_frame) auto
  ultimately show ?thesis using Inr cl by (simp add: do_clean_def split_beta)
qed (simp add: do_clean_def)

text \<open>
  C19: when \<open>interval * reserve\<close> fits in an
  \<open>int64\<close>, the cutoff is exactly the clock minus that many nanoseconds.
\<close>

theorem clean_cutoff_exact:
  "\<bar>sint (time_interval g) * reserve w\<bar> < 2 ^ 63 \<Longrightarrow>
   clean_cutoff g w now = abs_nanos now - sint (time_interval g) * reserve w"
  unfolding clean_cutoff_def cutoff_word by (subst sint_word_of_int_id) (auto simp: abs_less_iff)

text \<open>
  C18: with daily intervals and a reserve
  of 106752 days the \<open>int64\<close> product \<open>defaultTimeInterval * reserve\<close>
  wraps to a negative duration, the cutoff lies about 292 years in the
  future, and every listed log file not newer than the clock is deleted.
\<close>

theorem reserve_overflow_removes_recent:
  assumes "fs_wf fs" "denied fs = []" "\<not> no_space fs" "\<not> compress w"
    and "time_interval g = 24 * hour_ns" "reserve w = 106752"
    and "old_log_files g fs w = Inr files" "f \<in> set files" "abs_nanos (li_time f) \<le> abs_nanos now"
  shows "clean_cutoff g w now = abs_nanos now + 9223371273709551616 \<and>
         file_data (fst (do_clean gz g now fs w)) (path_join (dir w) (li_name f)) = None"
proof -
  obtain rms cps where cl: "clean_lists g w now files = (rms, cps)" by (rule clean_lists_cases)
  have c: "clean_cutoff g w now = abs_nanos now + 9223371273709551616"
    using assms(5,6) by (simp add: clean_cutoff_def hour_ns_def minute_ns_def second_ns_def)
  then have "f \<in> set rms" using clean_lists_props(1)[OF cl] assms(6,8,9) by simp
  moreover have "cps = []" using cl assms(4) by (auto simp: clean_lists_def Let_def split: prod.splits)
  ultimately show ?thesis using c clean_view_listed(2)[OF assms(1-3,7) cl _ assms(8), of gz] assms(4) by simp
qed

text \<open>
  C25: \<open>compressLogFile\<close> opens its target with
  \<open>O_TRUNC\<close>: an existing \<open>.gz\<close> file keeps its mode but its earlier
  contents are replaced by the new compressed stream.
\<close>

theorem compress_overwrites_gz:
  assumes "fs_lookup fs old = Some (RegFile m dat)" "fs_lookup fs new = Some (RegFile m2 x)" "old \<noteq> new"
    and "old \<notin> set (denied fs)" "new \<notin> set (denied fs)" "\<not> no_space fs"
  shows "compress_log_file gz fs old new = (fs_del (fs_put fs new (RegFile m2 (gz dat))) old, None)"
  using assms by (simp add: compress_log_file_def os_open_file_def os_stat_def fh_write_def os_remove_def
                            file_data_def write_at_def)

text \<open>
  C24: when writing the compressed stream
  fails, \<open>compressLogFile\<close> returns the raw write error and leaves the empty
  \<open>.gz\<close> file beside the original: the deferred closure meant to remove it
  and wrap the error never fires, because it tests an \<open>err\<close> that the later
  statements shadow.
\<close>

theorem compress_failure_keeps_partial:
  assumes "fs_lookup fs old = Some (RegFile m dat)" "fs_lookup fs new = None"
    and "fs_lookup fs (path_dir new) = Some (Directory dm)" "old \<noteq> new"
    and "old \<notin> set (denied fs)" "new \<notin> set (denied fs)" "no_space fs" "gz dat \<noteq> []"
  shows "compress_log_file gz fs old new = (fs_put fs new (RegFile m []), Some (PathError ''write'' new ENOSPC))"
  using assms by (simp add: compress_log_file_def os_open_file_def os_stat_def fh_write_def file_data_def)

text \<open>
  C26: if the directory holds a regular file,
  other than the current one, on whose name \<open>timeForName\<close> panics, then
  \<open>doClean\<close> panics (in the \<open>cleanRun\<close> goroutine, which ends the process).
\<close>

theorem clean_panics_on_undecodable:
  assumes "read_dir fs (dir w) = Inr es" "(n, RegFile m d) \<in> set es" "n \<noteq> path_base (cur_filename w)"
    and "time_for_name g n (filename_prefix w) (filename_suffix w) = Inl (Panic s)" "reserve w \<noteq> 0 \<or> compress w"
  shows "\<exists>s'. do_clean gz g now fs w = (fs, Some (Panic s'))"
proof -
  obtain e' where e': "collect_logs g w es = Inl e'"
    using collect_logs_panics[OF assms(2,3,4)] by auto
  moreover obtain s' where "e' = Panic s'" using collect_logs_Inl[OF e'] by (cases e') auto
  ultimately show ?thesis using assms(1,5) by (auto simp: do_clean_def old_log_files_def)
qed

text \<open>
  \<open>oldLogFiles\<close> returns its files
  newest first by the time decoded from their names.
\<close>

theorem old_log_files_newest_first:
  "old_log_files g fs w = Inr files \<Longrightarrow> sorted_wrt (\<lambda>a b. \<not> time_after (li_time b) (li_time a)) files"
proof -
  assume "old_log_files g fs w = Inr files"
  then obtain l where files: "files = sort_key (\<lambda>f. - abs_nanos (li_time f)) l"
    by (auto simp: old_log_files_def by_format_time_def split: sum.splits)
  have "sorted (map (\<lambda>f. - abs_nanos (li_time f)) files)" by (simp add: files sorted_sort_key)
  then show ?thesis by (simp add: sorted_map time_after_def not_less)
qed


subsection \<open>The claims at the example inputs\<close>

lemma fs4_facts:
  "fs_wf fs4" "denied fs4 = []" "\<not> no_space fs4"
  "fs_lookup fs4 ''/var/log/app_2019-07-11.log.gz'' = None"
  "fs_lookup fs4 ''/var/log/app_2019-07-09.log.gz'' = None"
  "path_join ''/var/log'' ''app_2019-07-09.log'' = ''/var/log/app_2019-07-09.log''"
  "path_join ''/var/log'' ''app_2019-07-11.log'' = ''/var/log/app_2019-07-11.log''"
  "path_join ''/var/log'' ''app_2019-07-11.log.gz'' = ''/var/log/app_2019-07-11.log.gz''"
  "path_join ''/var/log'' ''app_2019-07-09.log.gz'' = ''/var/log/app_2019-07-09.log.gz''"
  by code_simp+

lemma w4_fields [simp]:
  "dir w4 = ''/var/log''" "compress w4" "reserve w4 = 2" "cur_filename w4 = ''/var/log/app_2019-07-12.log''"
  by (simp_all add: w4_def w0_def)

lemma fs4_listing: "old_log_files gday fs4 (w4\<lparr>compress := c, reserve := r\<rparr>) = Inr [log_11, log_09]"
  by (simp add: old_log_files_def) code_simp

lemma log_names [simp]: "li_name log_09 = ''app_2019-07-09.log''" "li_name log_11 = ''app_2019-07-11.log''"
  by (simp_all add: log_09_def log_11_def)

theorem do_clean_refines_witness:
  "snd (do_clean gz0 gday t0 fs4 w4) = None \<and>
   file_data (fst (do_clean gz0 gday t0 fs4 w4)) =
     clean_spec gz0 ''/var/log'' [''app_2019-07-09.log''] [''app_2019-07-11.log''] (file_data fs4)"
proof -
  have l: "old_log_files gday fs4 w4 = Inr [log_11, log_09]"
    using fs4_listing[where c=True and r=2] by (simp add: w4_def w0_def)
  have cl: "clean_lists gday w4 t0 [log_11, log_09] = ([log_09], [log_11])" by code_simp
  have "\<forall>f\<in>set [log_11]. \<forall>m. fs_lookup fs4 (path_join (dir w4) (li_name f @ compress_suffix)) \<noteq> Some (Directory m)"
    using fs4_facts by (simp add: compress_suffix_def)
  then show ?thesis
    using do_clean_refines[OF fs4_facts(1-3) l cl, of gz0 "fst (do_clean gz0 gday t0 fs4 w4)"
                           "snd (do_clean gz0 gday t0 fs4 w4)"] by simp
qed


theorem clean_retention_boundary_witness:
  "file_data (fst (do_clean gz0 gday t0 fs4 (w4\<lparr>compress := False\<rparr>))) ''/var/log/app_2019-07-09.log'' = None \<and>
   file_data (fst (do_clean gz0 gday t0 fs4 (w4\<lparr>compress := False\<rparr>))) ''/var/log/app_2019-07-11.log'' = Some [2]"
proof -
  let ?w = "w4\<lparr>compress := False\<rparr>"
  have l: "old_log_files gday fs4 ?w = Inr [log_11, log_09]"
    using fs4_listing[where c=False and r=2] by (simp add: w4_def w0_def)
  have c: "abs_nanos (li_time log_09) < clean_cutoff gday ?w t0" "\<not> abs_nanos (li_time log_11) < clean_cutoff gday ?w t0"
    by code_simp+
  have d: "file_data fs4 ''/var/log/app_2019-07-11.log'' = Some [2]" by code_simp
  show ?thesis
    using clean_retention_boundary[OF fs4_facts(1-3) _ _ l, of log_09 gz0 t0]
          clean_retention_boundary[OF fs4_facts(1-3) _ _ l, of log_11 gz0 t0] c d fs4_facts(6,7)
    by simp
qed

theorem clean_compresses_kept_witness:
  "snd (do_clean gz0 gday t0 fs4 w4) = None \<and>
   file_data (fst (do_clean gz0 gday t0 fs4 w4)) ''/var/log/app_2019-07-11.log.gz'' = Some [31, 139, 2] \<and>
   file_data (fst (do_clean gz0 gday t0 fs4 w4)) ''/var/log/app_2019-07-11.log'' = None"
proof -
  have l: "old_log_files gday fs4 w4 = Inr [log_11, log_09]"
    using fs4_listing[where c=True and r=2] by (simp add: w4_def w0_def)
  have h: "\<not> has_suffix (li_name log_11) compress_suffix"
    "\<not> (0 < reserve w4 \<and> abs_nanos (li_time log_11) < clean_cutoff gday w4 t0)"
    "file_data fs4 ''/var/log/app_2019-07-11.log'' = Some [2]"
    by code_simp+
  have "\<forall>f\<in>set [log_11, log_09]. \<forall>m.
          fs_lookup fs4 (path_join (dir w4) (li_name f @ compress_suffix)) \<noteq> Some (Directory m)"
    using fs4_facts by (simp add: compress_suffix_def)
  then show ?thesis
    using clean_compresses_kept[OF fs4_facts(1-3) _ l _ h(1,2), of gz0] h(3) fs4_facts(7,8)
    by (simp add: gz0_def compress_suffix_def)
qed

theorem clean_keeps_current_file_witness:
  "fs_lookup (fst (do_clean gz0 gday t0 fs4 w4)) ''/var/log/app_2019-07-12.log'' = Some (RegFile 420 [3])"
proof -
  have h: "\<not> has_suffix (cur_filename w4) compress_suffix"
    "fs_lookup fs4 ''/var/log/app_2019-07-12.log'' = Some (RegFile 420 [3])" by code_simp+
  show ?thesis using clean_keeps_current_file[OF fs4_facts(1) h(1), of gz0 gday t0] h(2) by simp
qed

theorem clean_cutoff_exact_witness:
  "clean_cutoff gday w4 t0 = abs_nanos t0 - 172800000000000"
proof -
  have h: "\<bar>sint (time_interval gday) * reserve w4\<bar> < 2 ^ 63" "sint (time_interval gday) = 86400000000000"
    by code_simp+
  show ?thesis using clean_cutoff_exact[OF h(1), of t0] h(2) by simp
qed

theorem reserve_overflow_removes_recent_witness:
  "clean_cutoff gday (w4\<lparr>compress := False, reserve := 106752\<rparr>) t0 = abs_nanos t0 + 9223371273709551616 \<and>
   file_data (fst (do_clean gz0 gday t0 fs4 (w4\<lparr>compress := False, reserve := 106752\<rparr>)))
     ''/var/log/app_2019-07-11.log'' = None"
proof -
  let ?w = "w4\<lparr>compress := False, reserve := 106752\<rparr>"
  have h: "time_interval gday = 24 * hour_ns" "abs_nanos (li_time log_11) \<le> abs_nanos t0"
    by (simp add: gday_def dw_globals_init_def) code_simp
  show ?thesis
    using reserve_overflow_removes_recent[where fs=fs4 and w="?w" and g=gday and files="[log_11, log_09]"
            and f=log_11 and now=t0 and gz=gz0] fs4_facts fs4_listing h by simp
qed

theorem compress_overwrites_gz_witness:
  "compress_log_file gz0 fs5 ''/var/log/a.log'' ''/var/log/a.log.gz'' =
     (fs5\<lparr>entries := [(''/var/log'', Directory 484), (''/var/log/a.log.gz'', RegFile 384 [31, 139, 5])]\<rparr>, None)"
proof -
  have h: "fs_lookup fs5 ''/var/log/a.log'' = Some (RegFile 420 [5])"
    "fs_lookup fs5 ''/var/log/a.log.gz'' = Some (RegFile 384 [9, 9])"
    "denied fs5 = []" "\<not> no_space fs5" by code_simp+
  have "fs_del (fs_put fs5 ''/var/log/a.log.gz'' (RegFile 384 (gz0 [5]))) ''/var/log/a.log'' =
     fs5\<lparr>entries := [(''/var/log'', Directory 484), (''/var/log/a.log.gz'', RegFile 384 [31, 139, 5])]\<rparr>"
    by code_simp
  then show ?thesis using compress_overwrites_gz[OF h(1,2), of gz0] h(3,4) by simp
qed

theorem compress_failure_keeps_partial_witness:
  "compress_log_file gz0 (fs5\<lparr>entries := take 2 (entries fs5), no_space := True\<rparr>)
       ''/var/log/a.log'' ''/var/log/a.log.gz'' =
     (fs5\<lparr>entries := [(''/var/log'', Directory 484), (''/var/log/a.log'', RegFile 420 [5]),
                      (''/var/log/a.log.gz'', RegFile 420 [])], no_space := True\<rparr>,
      Some (PathError ''write'' ''/var/log/a.log.gz'' ENOSPC))"
proof -
  let ?fs = "fs5\<lparr>entries := take 2 (entries fs5), no_space := True\<rparr>"
  have h: "fs_lookup ?fs ''/var/log/a.log'' = Some (RegFile 420 [5])" "fs_lookup ?fs ''/var/log/a.log.gz'' = None"
    "fs_lookup ?fs (path_dir ''/var/log/a.log.gz'') = Some (Directory 484)"
    "denied ?fs = []" "no_space ?fs" "gz0 [5] \<noteq> []" by code_simp+
  have "fs_put ?fs ''/var/log/a.log.gz'' (RegFile 420 []) =
     fs5\<lparr>entries := [(''/var/log'', Directory 484), (''/var/log/a.log'', RegFile 420 [5]),
                      (''/var/log/a.log.gz'', RegFile 420 [])], no_space := True\<rparr>"
    by code_simp
  then show ?thesis
    using compress_failure_keeps_partial[where fs="?fs" and old="''/var/log/a.log''" and new="''/var/log/a.log.gz''"
            and gz=gz0 and m=420 and dat="[5]" and dm=484] h by simp
qed

theorem clean_panics_on_undecodable_witness:
  "\<exists>s'. do_clean gz0 gday t0 fs7 w4 = (fs7, Some (Panic s'))"
proof -
  have h: "read_dir fs7 (dir w4) = Inr [(''app.log'', RegFile 420 [1])]"
    "''app.log'' \<noteq> path_base (cur_filename w4)"
    "time_for_name gday ''app.log'' (filename_prefix w4) (filename_suffix w4) = Inl (Panic ''slice bounds out of range'')"
    by code_simp+
  show ?thesis using clean_panics_on_undecodable[OF h(1) _ h(2,3), of 420 "[1]" gz0 t0] by simp
qed

theorem old_log_files_newest_first_witness:
  "sorted_wrt (\<lambda>a b. \<not> time_after (li_time b) (li_time a)) [log_11, log_09]"
  using old_log_files_newest_first[OF fs4_listing[where c=True and r=2]] .

end
