(* ===== verification/Entry.thy ===== *)
theory Entry
  imports Interfaces Retention
begin

text \<open>
  The program of \<open>main.go\<close>.  \<open>main_setup\<close> is its set-up: two daily writers,
  a route that sends \<open>LEVEL_INFO\<close> to the first, the dispatcher and the
  logger.  Its loop is a step relation \<open>main_exec\<close> over the state
  \<open>mstate\<close>: the logger (with the dispatcher inside), the information
  writer with the file system, the goroutines of the current round (the
  number \<open>cnt\<close> each drew and how many of its three calls have returned)
  and the round counter \<open>j\<close>.  A round starts when every goroutine of the
  previous one has finished (\<open>wg.Wait()\<close>); the goroutines' calls
  \<open>Info\<close>, \<open>Error\<close>, \<open>Critical\<close>, the dispatcher's receives and the turns
  of the information writer's cleaner goroutine (started by its first
  rotation) interleave freely.  Starting the goroutines of a round is one step: a goroutine's
  start changes nothing another goroutine or the dispatcher reads.  The
  sleeps only delay steps and the clock of a call is any reading, so both
  are left to the schedule.  The round size and the number of rounds are
  parameters \<open>nb\<close> and \<open>rounds\<close> (10000 and 1000000000 in \<open>main.go\<close>).
\<close>

subsection \<open>Set-up and one goroutine\<close>

text \<open>
  \<open>main\<close> before its loop.  On an error of \<open>New\<close> the code prints and goes on
  with a nil writer; the model stops there.
\<close>

definition main_setup :: "dw_env \<Rightarrow> dw_globals \<Rightarrow> err + (dw_globals \<times> unit alog slogger \<times> dwriter \<times> dwriter)" where
  "main_setup env g =
     (case dw_new env g ''/Users/richard/log'' ''lishuang_info'' ''.log'' True 5 ''s'' of
        Inl e \<Rightarrow> Inl e
      | Inr (g1, info_log) \<Rightarrow>
          (case dw_new env g1 ''/Users/richard/log'' ''lishuang_err'' ''.log'' False 5 ''s'' of
             Inl e \<Rightarrow> Inl e
           | Inr (g2, err_log) \<Rightarrow>
               Inr (g2, new_simple_logger (new_async_log [(LEVEL_INFO, ())] 10000) (new_simple_formater [] []),
                    info_log, err_log)))"

text \<open>The three levels a goroutine logs at, in its order, and its \<open>uuid\<close>.\<close>

definition main_levels :: "level list" where
  "main_levels = [LEVEL_INFO, LEVEL_ERROR, LEVEL_CRITICAL]"

definition main_uuid :: "nat \<Rightarrow> string" where
  "main_uuid cnt = ''lishuang'' @ dec_digits cnt"

text \<open>
  The \<open>pc\<close>-th call of a goroutine that drew \<open>cnt\<close>, through the logger's
  \<open>IWriter\<close>, the dispatcher.
\<close>

fun main_call :: "unit alog slogger \<Rightarrow> civil \<Rightarrow> nat \<Rightarrow> nat \<Rightarrow> (unit alog slogger \<times> err option) option" where
  "main_call lg clock cnt 0 = slog_info (iw_write alog_iwriter) lg clock (main_uuid cnt) ''HH'' ''hello''"
| "main_call lg clock cnt (Suc 0) = slog_error (iw_write alog_iwriter) lg clock (main_uuid cnt) ''HH'' ''hello''"
| "main_call lg clock cnt (Suc (Suc 0)) =
     slog_critical (iw_write alog_iwriter) lg clock (main_uuid cnt) ''HH'' ''hello''"
| "main_call lg clock cnt (Suc (Suc (Suc n))) = None"

text \<open>A goroutine's three calls run without interruption, with one clock reading.\<close>

definition main_goroutine :: "unit alog slogger \<Rightarrow> civil \<Rightarrow> nat \<Rightarrow> unit alog slogger option" where
  "main_goroutine lg clock cnt =
     (case main_call lg clock cnt 0 of
        None \<Rightarrow> None
      | Some (l1, _) \<Rightarrow>
          (case main_call l1 clock cnt 1 of
             None \<Rightarrow> None
           | Some (l2, _) \<Rightarrow> map_option fst (main_call l2 clock cnt 2)))"

subsection \<open>The loop of \<open>main\<close>\<close>

text \<open>The round size and the number of rounds of \<open>main.go\<close>.\<close>

definition main_batch :: nat where "main_batch = 10000"

definition main_rounds :: nat where "main_rounds = 1000000000"

record mstate =
  m_log :: "unit alog slogger"
  m_sink :: "fsys \<times> dwriter"
  m_gs :: "(nat \<times> nat) list"
  m_round :: nat

text \<open>
  The events: the start of a round with the numbers \<open>rand.Intn(5)\<close> drew,
  the next call of goroutine \<open>i\<close> with the clock it reads, a receive
  of the dispatcher's goroutine, which writes through the information
  writer's \<open>IWriterWithTime\<close>, and a turn of the information writer's
  \<open>cleanRun\<close> goroutine at the clock it reads, once a rotation has
  signalled it (\<open>gz\<close> is the gzip compression).
\<close>

datatype mevent = MSpawn "nat list" | MCall nat civil | MRecv | MClean civil

fun main_exec :: "(bytes \<Rightarrow> bytes) \<Rightarrow> dw_globals \<Rightarrow> nat \<Rightarrow> nat \<Rightarrow> mevent \<Rightarrow> mstate \<Rightarrow> mstate option" where
  "main_exec gz g nb rounds (MSpawn cnts) s =
     (if list_all (\<lambda>(c, pc). pc = 3) (m_gs s) \<and> m_round s < rounds \<and> length cnts = nb \<and> list_all (\<lambda>c. c < 5) cnts
      then Some (s\<lparr>m_gs := map (\<lambda>c. (c, 0)) cnts, m_round := Suc (m_round s)\<rparr>)
      else None)"
| "main_exec gz g nb rounds (MCall i clock) s =
     (if i < length (m_gs s) \<and> snd (m_gs s ! i) < 3
      then (case m_gs s ! i of (c, pc) \<Rightarrow>
             (case main_call (m_log s) clock c pc of
                None \<Rightarrow> None
              | Some (lg', _) \<Rightarrow> Some (s\<lparr>m_log := lg', m_gs := (m_gs s)[i := (c, Suc pc)]\<rparr>)))
      else None)"
| "main_exec gz g nb rounds MRecv s =
     map_option (\<lambda>(a, sk). s\<lparr>m_log := (m_log s)\<lparr>writer := a\<rparr>, m_sink := sk\<rparr>)
       (recv_item (iwt_deliver (dw_iwt g)) (writer (m_log s), m_sink s))"
| "main_exec gz g nb rounds (MClean now) s =
     (if clean_pending (snd (m_sink s))
      then Some (s\<lparr>m_sink := clean_run gz g now (fst (m_sink s)) (snd (m_sink s))\<rparr>) else None)"

fun main_run :: "(bytes \<Rightarrow> bytes) \<Rightarrow> dw_globals \<Rightarrow> nat \<Rightarrow> nat \<Rightarrow> mevent list \<Rightarrow> mstate \<Rightarrow> mstate option" where
  "main_run gz g nb rounds [] s = Some s"
| "main_run gz g nb rounds (e # es) s =
     (case main_exec gz g nb rounds e s of None \<Rightarrow> None | Some s' \<Rightarrow> main_run gz g nb rounds es s')"

inductive mreach :: "(bytes \<Rightarrow> bytes) \<Rightarrow> dw_globals \<Rightarrow> nat \<Rightarrow> nat \<Rightarrow> mstate \<Rightarrow> mstate \<Rightarrow> bool"
  for gz g nb rounds s0 where
  mreach_refl: "mreach gz g nb rounds s0 s0"
| mreach_step: "mreach gz g nb rounds s0 s \<Longrightarrow> main_exec gz g nb rounds e s = Some s' \<Longrightarrow> mreach gz g nb rounds s0 s'"

text \<open>The state after the set-up, with the file system \<open>fs\<close> of the machine.\<close>

definition main_init :: "dw_env \<Rightarrow> dw_globals \<Rightarrow> fsys \<Rightarrow> err + (dw_globals \<times> mstate)" where
  "main_init env g fs =
     (case main_setup env g of
        Inl e \<Rightarrow> Inl e
      | Inr (g', lg, info_log, err_log) \<Rightarrow>
          Inr (g', \<lparr>m_log = lg, m_sink = (fs, info_log), m_gs = [], m_round = 0\<rparr>))"

text \<open>
  \<open>main\<close> has returned once the last round's goroutines have finished;
  the program is done when, besides, the dispatcher has drained its channel.
\<close>

definition main_returned :: "nat \<Rightarrow> mstate \<Rightarrow> bool" where
  "main_returned rounds s \<longleftrightarrow> list_all (\<lambda>(c, pc). pc = 3) (m_gs s) \<and> m_round s = rounds"

definition main_done :: "nat \<Rightarrow> mstate \<Rightarrow> bool" where
  "main_done rounds s \<longleftrightarrow> main_returned rounds s \<and> msg_ch (writer (m_log s)) = Some []"

subsection \<open>Invariant and measure\<close>

text \<open>The levels the goroutines of the current round have logged so far.\<close>

definition main_emitted :: "(nat \<times> nat) list \<Rightarrow> level multiset" where
  "main_emitted gs = sum_list (map (\<lambda>(c, pc). mset (take pc main_levels)) gs)"

definition main_inv :: "nat \<Rightarrow> nat \<Rightarrow> mstate \<Rightarrow> bool" where
  "main_inv nb rounds s \<longleftrightarrow>
     alog_inv (writer (m_log s)) \<and> route (writer (m_log s)) = [(LEVEL_INFO, ())] \<and>
     running (writer (m_log s)) \<and> reset_phase (writer (m_log s)) = 0 \<and>
     msg_ch (writer (m_log s)) \<noteq> None \<and> ch_cap (writer (m_log s)) = 10000 \<and>
     formater (m_log s) = fmt0 \<and> glevel (m_log s) = LEVEL_INFO \<and>
     list_all (\<lambda>(c, pc). pc \<le> 3) (m_gs s) \<and> m_round s \<le> rounds \<and>
     length (m_gs s) = (if m_round s = 0 then 0 else nb) \<and>
     mset (map it_level (sent (writer (m_log s)))) =
       repeat_mset ((m_round s - 1) * nb) (mset main_levels) + main_emitted (m_gs s)"

definition main_pending :: "(nat \<times> nat) list \<Rightarrow> nat" where
  "main_pending gs = sum_list (map (\<lambda>(c, pc). 3 - pc) gs)"

definition main_qlen :: "unit alog slogger \<Rightarrow> nat" where
  "main_qlen lg = (case msg_ch (writer lg) of Some q \<Rightarrow> length q | None \<Rightarrow> 0)"

definition main_measure :: "nat \<Rightarrow> nat \<Rightarrow> mstate \<Rightarrow> nat" where
  "main_measure nb rounds s =
     (rounds - m_round s) * (9 * nb + 1) + 3 * main_pending (m_gs s) + 2 * main_qlen (m_log s)
     + of_bool (clean_pending (snd (m_sink s)))"

subsection \<open>Example inputs\<close>

text \<open>The set-up of \<open>main\<close> on a machine whose log directory exists.\<close>

definition envM :: dw_env where
  "envM = \<lparr>temp_dir = ''/tmp'', args0 = ''./test'', work_dir = Some ''/Users/richard''\<rparr>"

definition gM :: dw_globals where "gM = apply_granularity Second dw_globals_init"

definition lgM :: "unit alog slogger" where
  "lgM = new_simple_logger (new_async_log [(LEVEL_INFO, ())] 10000) (new_simple_formater [] [])"

definition infoM :: dwriter where
  "infoM = \<lparr>dir = ''/Users/richard/log'', filename_prefix = ''lishuang_info'', filename_suffix = ''.log'',
     cur_filename = [], cur_file = None, start_clean = False, clean_pending = False, compress = True, reserve = 5\<rparr>"

definition errM :: dwriter where
  "errM = infoM\<lparr>filename_prefix := ''lishuang_err'', compress := False\<rparr>"

definition fsM :: fsys where
  "fsM = \<lparr>entries = [(''/Users/richard/log'', Directory 484)], denied = [], no_space = False\<rparr>"

definition sM :: mstate where
  "sM = \<lparr>m_log = lgM, m_sink = (fsM, infoM), m_gs = [], m_round = 0\<rparr>"

text \<open>One round of one goroutine that drew 3, whose three calls all read the clock \<open>t0\<close>.\<close>

definition evsM :: "mevent list" where
  "evsM = [MSpawn [3], MCall 0 t0, MCall 0 t0, MCall 0 t0]"

subsection \<open>The invariant, the measure and progress\<close>

lemma main_levels_le_info: "pc < 3 \<Longrightarrow> main_levels ! pc \<le> LEVEL_INFO"
  by (auto simp: main_levels_def LEVEL_INFO_def LEVEL_ERROR_def LEVEL_CRITICAL_def less_Suc_eq numeral_3_eq_3)

lemma main_call_log:
  "pc < 3 \<Longrightarrow> main_call lg clock c pc = slog_log async_write lg clock (main_levels ! pc) (main_uuid c) ''HH'' ''hello''"
  by (auto simp: main_levels_def slog_info_def slog_error_def slog_critical_def less_Suc_eq numeral_3_eq_3)

lemma slog_log_async_write:
  assumes "\<not> glevel s < l" "format (formater s) clock l u e m = Some ss"
    "reset_phase (writer s) = 0" "msg_ch (writer s) = Some q"
  shows "slog_log async_write s clock l u e m =
    (if length q < ch_cap (writer s)
     then Some (s\<lparr>writer := (writer s)\<lparr>msg_ch := Some (q @ [\<lparr>it_level = l, it_msg = s2b ss, it_time = clock\<rparr>]),
                  sent := sent (writer s) @ [\<lparr>it_level = l, it_msg = s2b ss, it_time = clock\<rparr>]\<rparr>\<rparr>, None)
     else None)"
  using assms by (simp add: slog_log_def async_write_def Let_def)

lemma slog_log_qlen:
  "slog_log async_write lg clock l u e m = Some (lg', r) \<Longrightarrow> main_qlen lg' \<le> Suc (main_qlen lg)"
  by (auto simp: slog_log_def async_write_def main_qlen_def Let_def split: if_splits option.splits)

text \<open>A goroutine's next call under the invariant: it enqueues its record, or blocks on a full channel.\<close>

lemma main_call_inv:
  fixes clock :: civil and c :: nat
  assumes "main_inv nb rounds s" "pc < 3" "msg_ch (writer (m_log s)) = Some q"
  defines "it \<equiv> \<lparr>it_level = main_levels ! pc,
                  it_msg = s2b (the (format fmt0 clock (main_levels ! pc) (main_uuid c) ''HH'' ''hello'')),
                  it_time = clock\<rparr>"
  shows "main_call (m_log s) clock c pc =
    (if length q < 10000
     then Some ((m_log s)\<lparr>writer := (writer (m_log s))\<lparr>msg_ch := Some (q @ [it]),
                  sent := sent (writer (m_log s)) @ [it]\<rparr>\<rparr>, None)
     else None)"
proof -
  have "\<not> glevel (m_log s) < main_levels ! pc"
    using assms(1,2) main_levels_le_info[OF assms(2)] by (simp add: main_inv_def)
  then show ?thesis
    using assms slog_log_async_write[of "m_log s" "main_levels ! pc" clock "main_uuid c" "''HH''" "''hello''"]
    by (simp add: main_call_log main_inv_def format_fmt0)
qed

lemma main_emitted_done:
  "list_all (\<lambda>(c, pc). pc = 3) gs \<Longrightarrow> main_emitted gs = repeat_mset (length gs) (mset main_levels)"
  by (induction gs) (auto simp: main_emitted_def main_levels_def)

lemma main_emitted_spawn [simp]: "main_emitted (map (\<lambda>c. (c, 0)) cnts) = {#}"
  by (induction cnts) (simp_all add: main_emitted_def)

lemma main_emitted_call:
  assumes "i < length gs" "gs ! i = (c, pc)" "pc < 3"
  shows "main_emitted (gs[i := (c, Suc pc)]) = main_emitted gs + {#main_levels ! pc#}"
proof -
  let ?f = "\<lambda>(c::nat, pc). mset (take pc main_levels)"
  have l: "pc < length main_levels" using assms(3) by (simp add: main_levels_def)
  have "?f (c, Suc pc) = ?f (c, pc) + {#main_levels ! pc#}"
    by (simp add: take_Suc_conv_app_nth[OF l])
  then show ?thesis
    using sum_list_map_update[OF assms(1), of ?f "(c, Suc pc)"] assms(2)
    by (simp add: main_emitted_def add.assoc[symmetric])
qed

lemma main_pending_done: "list_all (\<lambda>(c, pc). pc = 3) gs \<Longrightarrow> main_pending gs = 0"
  by (induction gs) (auto simp: main_pending_def)

lemma main_pending_spawn [simp]: "main_pending (map (\<lambda>c. (c, 0)) cnts) = 3 * length cnts"
  by (induction cnts) (simp_all add: main_pending_def)

lemma main_pending_call:
  assumes "i < length gs" "gs ! i = (c, pc)" "pc < 3"
  shows "Suc (main_pending (gs[i := (c, Suc pc)])) = main_pending gs"
  using sum_list_map_update[OF assms(1), of "\<lambda>(c::nat, pc). 3 - pc" "(c, Suc pc)"] assms(2,3)
  by (simp add: main_pending_def)

lemma main_exec_MCall:
  "main_exec gz g nb rounds (MCall i clock) s = Some s' \<Longrightarrow>
   \<exists>c pc lg' r. i < length (m_gs s) \<and> m_gs s ! i = (c, pc) \<and> pc < 3 \<and> main_call (m_log s) clock c pc = Some (lg', r) \<and>
     s' = s\<lparr>m_log := lg', m_gs := (m_gs s)[i := (c, Suc pc)]\<rparr>"
  by (auto split: if_splits prod.splits option.splits)

lemma main_exec_MRecv:
  "main_exec gz g nb rounds MRecv s = Some s' \<Longrightarrow>
   \<exists>it q. running (writer (m_log s)) \<and> msg_ch (writer (m_log s)) = Some (it # q) \<and>
     m_log s' = (m_log s)\<lparr>writer := (writer (m_log s))\<lparr>msg_ch := Some q, dlv := dlv (writer (m_log s)) @ [it]\<rparr>\<rparr> \<and>
     m_gs s' = m_gs s \<and> m_round s' = m_round s"
  by (auto simp: recv_item_def split: if_splits option.splits list.splits)

lemma main_exec_inv:
  assumes "main_inv nb rounds s" "main_exec gz g nb rounds e s = Some s'"
  shows "main_inv nb rounds s'"
proof (cases e)
  case (MSpawn cnts)
  then have h: "list_all (\<lambda>(c, pc). pc = 3) (m_gs s)" "m_round s < rounds" "length cnts = nb"
    and s': "s' = s\<lparr>m_gs := map (\<lambda>c. (c, 0)) cnts, m_round := Suc (m_round s)\<rparr>"
    using assms(2) by (auto split: if_splits)
  have "repeat_mset ((m_round s - 1) * nb) (mset main_levels) + main_emitted (m_gs s) =
        repeat_mset (m_round s * nb) (mset main_levels)"
    using assms(1) main_emitted_done[OF h(1)]
    by (cases "m_round s") (auto simp: main_inv_def repeat_mset_distrib[symmetric])
  then show ?thesis using assms(1) h s' by (simp add: main_inv_def list_all_iff)
next
  case (MCall i clock)
  obtain c pc lg' r where h: "i < length (m_gs s)" "m_gs s ! i = (c, pc)" "pc < 3"
      "main_call (m_log s) clock c pc = Some (lg', r)"
    and s': "s' = s\<lparr>m_log := lg', m_gs := (m_gs s)[i := (c, Suc pc)]\<rparr>"
    using main_exec_MCall assms(2) MCall by blast
  obtain q where q: "msg_ch (writer (m_log s)) = Some q" using assms(1) by (auto simp: main_inv_def)
  note call = main_call_inv[OF assms(1) h(3) q, of clock c]
  have lq: "length q < 10000" using call h(4) by (simp split: if_splits)
  then have lg': "lg' = (m_log s)\<lparr>writer := (writer (m_log s))\<lparr>msg_ch := Some (q @ [\<lparr>it_level = main_levels ! pc,
                  it_msg = s2b (the (format fmt0 clock (main_levels ! pc) (main_uuid c) ''HH'' ''hello'')),
                  it_time = clock\<rparr>]), sent := sent (writer (m_log s)) @ [\<lparr>it_level = main_levels ! pc,
                  it_msg = s2b (the (format fmt0 clock (main_levels ! pc) (main_uuid c) ''HH'' ''hello'')),
                  it_time = clock\<rparr>]\<rparr>\<rparr>"
    using call h(4) by simp
  have "alog_inv (writer lg')" using assms(1) q lq lg' by (auto simp: alog_inv_def main_inv_def)
  moreover have "list_all (\<lambda>(c, pc). pc \<le> 3) (m_gs s')"
    using assms(1) h(3) s' by (auto simp: main_inv_def intro: list_all_update_if)
  ultimately show ?thesis
    using assms(1) s' lg' main_emitted_call[OF h(1-3)] by (simp add: main_inv_def add.assoc)
next
  case MRecv
  then obtain it q where h: "running (writer (m_log s))" "msg_ch (writer (m_log s)) = Some (it # q)"
    "m_log s' = (m_log s)\<lparr>writer := (writer (m_log s))\<lparr>msg_ch := Some q, dlv := dlv (writer (m_log s)) @ [it]\<rparr>\<rparr>"
    "m_gs s' = m_gs s" "m_round s' = m_round s"
    using main_exec_MRecv assms(2) by blast
  then show ?thesis using assms(1) by (auto simp: main_inv_def alog_inv_def)
next
  case (MClean now)
  then show ?thesis using assms by (auto simp: main_inv_def split: if_splits)
qed

lemma main_init_inv: "main_init env g fs = Inr (g', s0) \<Longrightarrow> main_inv nb rounds s0"
  by (auto simp: main_init_def main_setup_def main_inv_def alog_inv_def new_simple_logger_def
                 new_async_log_def fmt0_def main_emitted_def split: sum.splits prod.splits)

lemma mreach_inv: "mreach gz g nb rounds s0 s \<Longrightarrow> main_inv nb rounds s0 \<Longrightarrow> main_inv nb rounds s"
  by (induction rule: mreach.induct) (auto intro: main_exec_inv)

lemma mreach_prepend:
  assumes "mreach gz g nb rounds s1 s'" "main_exec gz g nb rounds e s = Some s1"
  shows "mreach gz g nb rounds s s'"
  using assms(1)
proof (induction rule: mreach.induct)
  case mreach_refl
  then show ?case using mreach.mreach_refl mreach_step assms(2) by metis
next
  case (mreach_step s2 e' s3)
  then show ?case using mreach.mreach_step by metis
qed

lemma main_run_mreach: "main_run gz g nb rounds es s = Some s' \<Longrightarrow> mreach gz g nb rounds s s'"
  by (induction es arbitrary: s) (auto split: option.splits intro: mreach_prepend mreach_refl)

lemma main_exec_measure:
  assumes "main_exec gz g nb rounds e s = Some s'"
  shows "main_measure nb rounds s' < main_measure nb rounds s"
proof (cases e)
  case (MSpawn cnts)
  then have h: "list_all (\<lambda>(c, pc). pc = 3) (m_gs s)" "m_round s < rounds" "length cnts = nb"
    and s': "s' = s\<lparr>m_gs := map (\<lambda>c. (c, 0)) cnts, m_round := Suc (m_round s)\<rparr>"
    using assms by (auto split: if_splits)
  have "rounds - m_round s = Suc (rounds - Suc (m_round s))" using h(2) by simp
  then show ?thesis using h s' by (simp add: main_measure_def main_pending_done)
next
  case (MCall i clock)
  obtain c pc lg' r where h: "i < length (m_gs s)" "m_gs s ! i = (c, pc)" "pc < 3"
      "main_call (m_log s) clock c pc = Some (lg', r)"
    and s': "s' = s\<lparr>m_log := lg', m_gs := (m_gs s)[i := (c, Suc pc)]\<rparr>"
    using main_exec_MCall assms MCall by blast
  have "main_qlen lg' \<le> Suc (main_qlen (m_log s))"
    using h(4) slog_log_qlen by (simp add: main_call_log[OF h(3)])
  then show ?thesis using s' main_pending_call[OF h(1-3)] by (simp add: main_measure_def)
next
  case MRecv
  then obtain it q where h: "msg_ch (writer (m_log s)) = Some (it # q)"
    "m_log s' = (m_log s)\<lparr>writer := (writer (m_log s))\<lparr>msg_ch := Some q, dlv := dlv (writer (m_log s)) @ [it]\<rparr>\<rparr>"
    "m_gs s' = m_gs s" "m_round s' = m_round s"
    using main_exec_MRecv assms by blast
  then show ?thesis by (simp add: main_measure_def main_qlen_def of_bool_def)
next
  case (MClean now)
  then have "clean_pending (snd (m_sink s))"
    and s': "s' = s\<lparr>m_sink := clean_run gz g now (fst (m_sink s)) (snd (m_sink s))\<rparr>"
    using assms by (auto split: if_splits)
  then show ?thesis by (simp add: main_measure_def clean_run_def)
qed

lemma main_progress:
  assumes "main_inv nb rounds s" "\<not> main_done rounds s"
  shows "\<exists>e s'. main_exec gz g nb rounds e s = Some s'"
proof -
  obtain q where q: "msg_ch (writer (m_log s)) = Some q" using assms(1) by (auto simp: main_inv_def)
  have recv: "\<exists>s'. main_exec gz g nb rounds MRecv s = Some s'" if "q \<noteq> []"
    using that q assms(1) by (cases q) (auto simp: main_inv_def recv_item_def)
  show ?thesis
  proof (cases "list_all (\<lambda>(c, pc). pc = 3) (m_gs s)")
    case fin: True
    show ?thesis
    proof (cases "q = []")
      case True
      then have "m_round s < rounds" using fin assms q by (auto simp: main_done_def main_returned_def main_inv_def)
      then have "main_exec gz g nb rounds (MSpawn (replicate nb 0)) s \<noteq> None" using fin by (simp add: list_all_iff)
      then show ?thesis by blast
    next
      case False
      with recv show ?thesis by blast
    qed
  next
    case False
    then obtain i where i0: "i < length (m_gs s)" "snd (m_gs s ! i) \<noteq> 3"
      by (auto simp: list_all_length split_beta)
    obtain c pc where ci: "m_gs s ! i = (c, pc)" "pc < 3"
      using i0 assms(1) by (cases "m_gs s ! i") (fastforce simp: main_inv_def list_all_length)
    show ?thesis
    proof (cases "length q < 10000")
      case True
      then have "main_exec gz g nb rounds (MCall i civil0) s \<noteq> None"
        using i0(1) ci main_call_inv[OF assms(1) ci(2) q, of civil0 c] by simp
      then show ?thesis by blast
    next
      case False
      then have "q \<noteq> []" by auto
      with recv show ?thesis by blast
    qed
  qed
qed

lemma main_exec_rounds_mono:
  "main_exec gz g nb r1 e s = Some s' \<Longrightarrow> r1 \<le> r2 \<Longrightarrow> main_exec gz g nb r2 e s = Some s'"
  by (cases e) (auto split: if_splits)

lemma mreach_rounds_mono:
  "mreach gz g nb r1 s0 s \<Longrightarrow> r1 \<le> r2 \<Longrightarrow> mreach gz g nb r2 s0 s"
  by (induction rule: mreach.induct) (auto intro: mreach.intros main_exec_rounds_mono)

lemma mreach_trans:
  "mreach gz g nb rounds s1 s2 \<Longrightarrow> mreach gz g nb rounds s0 s1 \<Longrightarrow> mreach gz g nb rounds s0 s2"
  by (induction rule: mreach.induct) (auto intro: mreach.intros)

lemma mreach_one:
  "main_exec gz g nb rounds e s = Some s' \<Longrightarrow> mreach gz g nb rounds s s'"
  by (rule mreach_step[OF mreach_refl])

lemma main_inv_reaches_done:
  assumes "main_inv nb rounds s"
  shows "\<exists>s'. mreach gz g nb rounds s s' \<and> main_done rounds s'"
  using assms
proof (induction "main_measure nb rounds s" arbitrary: s rule: less_induct)
  case less
  show ?case
  proof (cases "main_done rounds s")
    case True
    then show ?thesis using mreach_refl by blast
  next
    case False
    then obtain e s1 where s1: "main_exec gz g nb rounds e s = Some s1" using main_progress[OF less.prems] by blast
    then obtain s' where "mreach gz g nb rounds s1 s'" "main_done rounds s'"
      using less.hyps[OF main_exec_measure[OF s1] main_exec_inv[OF less.prems s1]] by blast
    then show ?thesis using mreach_prepend[OF _ s1] by blast
  qed
qed

text \<open>
  A schedule that runs the goroutines' calls first and lets the dispatcher
  receive only while the channel is full finishes the round with a
  record still in the channel.
\<close>

lemma main_calls_finish:
  assumes "main_inv nb rounds s" "\<not> list_all (\<lambda>(c, pc). pc = 3) (m_gs s)"
  shows "\<exists>s'. mreach gz g nb rounds s s' \<and> list_all (\<lambda>(c, pc). pc = 3) (m_gs s') \<and>
              m_round s' = m_round s \<and> msg_ch (writer (m_log s')) \<noteq> Some []"
  using assms
proof (induction "main_measure nb rounds s" arbitrary: s rule: less_induct)
  case less
  obtain q where q: "msg_ch (writer (m_log s)) = Some q" using less.prems(1) by (auto simp: main_inv_def)
  obtain i where i0: "i < length (m_gs s)" "snd (m_gs s ! i) \<noteq> 3"
    using less.prems(2) by (auto simp: list_all_length split_beta)
  obtain c pc where ci: "m_gs s ! i = (c, pc)" "pc < 3"
    using i0 less.prems(1) by (cases "m_gs s ! i") (fastforce simp: main_inv_def list_all_length)
  have step: "\<exists>s'. mreach gz g nb rounds s s' \<and> list_all (\<lambda>(c, pc). pc = 3) (m_gs s') \<and>
                  m_round s' = m_round s \<and> msg_ch (writer (m_log s')) \<noteq> Some []"
    if s1: "main_exec gz g nb rounds e s = Some s1" and r1: "m_round s1 = m_round s"
      and fin: "list_all (\<lambda>(c, pc). pc = 3) (m_gs s1) \<Longrightarrow> msg_ch (writer (m_log s1)) \<noteq> Some []" for e s1
  proof (cases "list_all (\<lambda>(c, pc). pc = 3) (m_gs s1)")
    case True
    then show ?thesis using mreach_one[OF s1] r1 fin by blast
  next
    case False
    then obtain s' where "mreach gz g nb rounds s1 s'" "list_all (\<lambda>(c, pc). pc = 3) (m_gs s')"
        "m_round s' = m_round s1" "msg_ch (writer (m_log s')) \<noteq> Some []"
      using less.hyps[OF main_exec_measure[OF s1] main_exec_inv[OF less.prems(1) s1]] by blast
    then show ?thesis using mreach_prepend[OF _ s1] r1 by auto
  qed
  show ?case
  proof (cases "length q < 10000")
    case True
    then obtain s1 where s1: "main_exec gz g nb rounds (MCall i civil0) s = Some s1"
      using i0(1) ci main_call_inv[OF less.prems(1) ci(2) q, of civil0 c] by fastforce
    obtain c' pc' lg' r where h: "m_gs s ! i = (c', pc')" "main_call (m_log s) civil0 c' pc' = Some (lg', r)"
        "s1 = s\<lparr>m_log := lg', m_gs := (m_gs s)[i := (c', Suc pc')]\<rparr>"
      using main_exec_MCall[OF s1] by blast
    have "msg_ch (writer lg') \<noteq> Some []"
      using h(1,2) ci main_call_inv[OF less.prems(1) ci(2) q, of civil0 c] by (simp split: if_splits)
    then show ?thesis using step[OF s1] h(3) by simp
  next
    case False
    then have "q \<noteq> []" by auto
    then have "\<exists>s1. main_exec gz g nb rounds MRecv s = Some s1"
      using q less.prems(1) by (cases q) (auto simp: main_inv_def recv_item_def)
    then obtain s1 where s1: "main_exec gz g nb rounds MRecv s = Some s1" by blast
    then show ?thesis using step[OF s1] main_exec_MRecv[OF s1] less.prems(2) by auto
  qed
qed

text \<open>
  C14: every run of \<open>main\<close>'s loop is finite, whatever
  the schedule: each step of a goroutine or of the dispatcher and each
  start of a round lowers \<open>main_measure\<close>, and so does a turn of the
  cleaner, which consumes the signal a rotation left; the step relation
  is well founded (at most \<open>rounds * (9 * nb + 1)\<close> steps from the start).
\<close>

theorem main_terminates: "wf {(s', s). \<exists>e. main_exec gz g nb rounds e s = Some s'}"
  by (rule wf_subset[OF wf_measure[of "main_measure nb rounds"]]) (auto dest: main_exec_measure)

text \<open>
  C13: \<open>main\<close> never deadlocks: from every state its
  loop can reach, some schedule completes every round (each \<open>wg.Wait()\<close>
  returns, although the channel of 10000 slots is smaller than a round's
  30000 records) and lets the dispatcher drain the channel.
\<close>

theorem main_reaches_done:
  assumes "main_init env g fs = Inr (g', s0)" "mreach gz g' nb rounds s0 s"
  shows "\<exists>s'. mreach gz g' nb rounds s s' \<and> main_done rounds s'"
  using main_inv_reaches_done[OF mreach_inv[OF assms(2) main_init_inv[OF assms(1)]]] .

text \<open>
  C12: whenever every goroutine of the current round
  has finished, the dispatcher has accepted exactly one \<open>Info\<close>, one
  \<open>Error\<close> and one \<open>Critical\<close> record per goroutine started so far: none
  is lost or duplicated on the way in, whatever the interleaving.
\<close>

theorem main_round_counts:
  assumes "main_init env g fs = Inr (g', s0)" "mreach gz g' nb rounds s0 s" "list_all (\<lambda>(c, pc). pc = 3) (m_gs s)"
  shows "mset (map it_level (sent (writer (m_log s)))) =
           repeat_mset (m_round s * nb) {#LEVEL_INFO, LEVEL_ERROR, LEVEL_CRITICAL#}"
proof -
  have "main_inv nb rounds s" using mreach_inv[OF assms(2) main_init_inv[OF assms(1)]] .
  then have "mset (map it_level (sent (writer (m_log s)))) = repeat_mset (m_round s * nb) (mset main_levels)"
    using main_emitted_done[OF assms(3)]
    by (cases "m_round s") (auto simp: main_inv_def repeat_mset_distrib[symmetric])
  then show ?thesis by (simp add: main_levels_def)
qed

text \<open>
  C17: \<open>main\<close> returns, and the process exits, as soon
  as the last round's goroutines have finished: nothing waits for the
  dispatcher (no \<open>StopAndReset\<close>, no flush).  For every round size and
  number of rounds, some schedule reaches a state where \<open>main\<close> has
  returned while records the dispatcher accepted have not been received
  and written: they are lost at exit.
\<close>

theorem main_exit_loses_records:
  assumes "main_init env g fs = Inr (g', s0)" "0 < nb" "0 < rounds"
  shows "\<exists>s. mreach gz g' nb rounds s0 s \<and> main_returned rounds s \<and>
             length (dlv (writer (m_log s))) < length (sent (writer (m_log s)))"
proof -
  obtain s1 where s1: "mreach gz g' nb (rounds - 1) s0 s1" "main_done (rounds - 1) s1"
    using main_inv_reaches_done[OF main_init_inv[OF assms(1)]] by blast
  have r1: "mreach gz g' nb rounds s0 s1" using mreach_rounds_mono[OF s1(1)] by simp
  have i1: "main_inv nb rounds s1" using mreach_inv[OF r1 main_init_inv[OF assms(1)]] .
  let ?s2 = "s1\<lparr>m_gs := map (\<lambda>c. (c, 0)) (replicate nb 0), m_round := Suc (m_round s1)\<rparr>"
  have e2: "main_exec gz g' nb rounds (MSpawn (replicate nb 0)) s1 = Some ?s2"
    using s1(2) assms(3) by (auto simp: main_done_def main_returned_def list_all_iff)
  have i2: "main_inv nb rounds ?s2" using main_exec_inv[OF i1 e2] .
  have "\<not> list_all (\<lambda>(c, pc). pc = 3) (m_gs ?s2)" using assms(2) by (cases nb) simp_all
  then obtain s3 where s3: "mreach gz g' nb rounds ?s2 s3" "list_all (\<lambda>(c, pc). pc = 3) (m_gs s3)"
      "m_round s3 = Suc (m_round s1)" "msg_ch (writer (m_log s3)) \<noteq> Some []"
    using main_calls_finish[OF i2] by auto
  have r3: "mreach gz g' nb rounds s0 s3" using mreach_trans[OF s3(1) mreach_prepend[OF mreach_refl e2]] r1
    by (rule mreach_trans)
  have "main_returned rounds s3" using s3(2,3) s1(2) assms(3) by (simp add: main_done_def main_returned_def)
  moreover have "length (dlv (writer (m_log s3))) < length (sent (writer (m_log s3)))"
    using mreach_inv[OF r3 main_init_inv[OF assms(1)]] s3(4)
    by (cases "msg_ch (writer (m_log s3))") (auto simp: main_inv_def alog_inv_def)
  ultimately show ?thesis using r3 by blast
qed

subsection \<open>The claims at the example inputs\<close>

lemma sM_init: "main_init envM dw_globals_init fsM = Inr (gM, sM)"
  by (simp add: main_init_def sM_def) code_simp

lemma sM_run:
  "\<exists>s. main_run gz0 gM 1 1 evsM sM = Some s \<and> main_returned 1 s \<and> list_all (\<lambda>(c, pc). pc = 3) (m_gs s) \<and>
       m_round s = 1 \<and> map it_level (the (msg_ch (writer (m_log s)))) = [LEVEL_INFO, LEVEL_ERROR, LEVEL_CRITICAL] \<and>
       fst (m_sink s) = fsM"
proof -
  have "case main_run gz0 gM 1 1 evsM sM of None \<Rightarrow> False
        | Some s \<Rightarrow> main_returned 1 s \<and> list_all (\<lambda>(c, pc). pc = 3) (m_gs s) \<and> m_round s = 1 \<and>
            map it_level (the (msg_ch (writer (m_log s)))) = [LEVEL_INFO, LEVEL_ERROR, LEVEL_CRITICAL] \<and>
            fst (m_sink s) = fsM"
    by code_simp
  then show ?thesis by (auto split: option.splits)
qed

theorem main_reaches_done_witness:
  "\<exists>s'. mreach gz0 gM main_batch main_rounds sM s' \<and> main_done main_rounds s'"
  using main_reaches_done[OF sM_init mreach_refl] .

theorem main_round_counts_witness:
  "\<exists>s. mreach gz0 gM 1 1 sM s \<and> list_all (\<lambda>(c, pc). pc = 3) (m_gs s) \<and>
       mset (map it_level (sent (writer (m_log s)))) = {#LEVEL_INFO, LEVEL_ERROR, LEVEL_CRITICAL#}"
proof -
  obtain s where r: "main_run gz0 gM 1 1 evsM sM = Some s" "list_all (\<lambda>(c, pc). pc = 3) (m_gs s)" "m_round s = 1"
    using sM_run by blast
  have "{#LEVEL_CRITICAL, LEVEL_ERROR, LEVEL_INFO#} = {#LEVEL_INFO, LEVEL_ERROR, LEVEL_CRITICAL#}"
    by (simp add: add_mset_commute)
  then show ?thesis using main_round_counts[OF sM_init main_run_mreach[OF r(1)] r(2)] main_run_mreach[OF r(1)] r
    by auto
qed

theorem main_exit_loses_records_witness:
  "\<exists>s. mreach gz0 gM main_batch main_rounds sM s \<and> main_returned main_rounds s \<and>
       length (dlv (writer (m_log s))) < length (sent (writer (m_log s)))"
  using main_exit_loses_records[OF sM_init] by (simp add: main_batch_def main_rounds_def)

end
