(* ===== verification/TimeAdd.thy ===== *)
theory TimeAdd
  imports GoTime
begin

text \<open>
  \<open>Time.Add\<close> and \<open>Time.Equal\<close> of Go's \<open>time\<close> package, which the unit
  test of \<open>dailywriter\<close> uses: adding a non-negative duration in
  nanoseconds carries into seconds, minutes, hours and then whole days,
  which step through the calendar (\<open>next_day\<close>).  The result
  \<open>time_add_abs\<close> is that a valid reading stays valid and its instant
  \<open>abs_nanos\<close> moves by exactly the duration; it rests on the count of
  leap days \<open>days_before_year_succ\<close>.
\<close>

text \<open>The day after a valid reading's date, at the same time of day.\<close>

definition next_day :: "civil \<Rightarrow> civil" where
  "next_day c =
     (if day c < days_in (month c) (year c) then c\<lparr>day := Suc (day c)\<rparr>
      else if month c < 12 then c\<lparr>month := Suc (month c), day := 1\<rparr>
      else c\<lparr>year := year c + 1, month := 1, day := 1\<rparr>)"

text \<open>\<open>t.Add(d)\<close> for \<open>d \<ge> 0\<close> nanoseconds.\<close>

definition time_add :: "civil \<Rightarrow> nat \<Rightarrow> civil" where
  "time_add c d =
     (let ns = nanosecond c + d;
          s = second c + ns div 1000000000;
          mi = minute c + s div 60;
          h = hour c + mi div 60
      in (next_day ^^ (h div 24))
           (c\<lparr>hour := h mod 24, minute := mi mod 60, second := s mod 60, nanosecond := ns mod 1000000000\<rparr>))"

text \<open>\<open>t.Equal(u)\<close>: the same instant.\<close>

definition time_equal :: "civil \<Rightarrow> civil \<Rightarrow> bool" where
  "time_equal a b \<longleftrightarrow> abs_nanos a = abs_nanos b"

text \<open>The number of the day of a reading, counted from 0000-01-01.\<close>

definition day_num :: "civil \<Rightarrow> int" where
  "day_num c = days_before_year (year c) + int (days_before_month (month c) (year c)) + int (day c) - 1"

lemma abs_nanos_day_num:
  "abs_nanos c = (((day_num c * 24 + int (hour c)) * 60 + int (minute c)) * 60 + int (second c)) * 1000000000
                 + int (nanosecond c)"
  by (simp add: abs_nanos_def day_num_def)

lemma div_succ_step:
  fixes y k :: int
  assumes "0 < k"
  shows "(y + k) div k = (y + (k - 1)) div k + of_bool (k dvd y)"
proof -
  define q r where "q = y div k" and "r = y mod k"
  have y: "y = r + q * k" and r: "0 \<le> r" "r < k"
    using assms by (simp_all add: q_def r_def)
  have a: "(y + k) div k = q + 1" using assms div_add_self2[of k y] by (simp add: q_def)
  have b: "(y + (k - 1)) div k = (r + (k - 1)) div k + q"
    using assms unfolding y by (metis add.commute add.left_commute div_mult_self1 less_irrefl)
  have "(r + (k - 1)) div k = of_bool (r \<noteq> 0)"
  proof (cases "r = 0")
    case True
    then show ?thesis using assms by simp
  next
    case False
    then have "0 \<le> r - 1" "r - 1 < k" using r by auto
    then have z: "(r - 1) div k = 0" by (rule div_pos_pos_trivial)
    have "(r + (k - 1)) div k = (k + (r - 1)) div k" by (simp add: algebra_simps)
    also have "\<dots> = (r - 1) div k + 1" by (rule div_add_self1) (use assms in simp)
    finally show ?thesis using z False by simp
  qed
  moreover have "k dvd y \<longleftrightarrow> r = 0" by (simp add: r_def dvd_eq_mod_eq_0)
  ultimately show ?thesis using a b by simp
qed

lemma leap_count:
  "(365::int) + of_bool (4 dvd y) - of_bool (100 dvd y) + of_bool (400 dvd y) = (if is_leap y then 366 else 365)"
proof -
  have "(100::int) dvd 400" "(4::int) dvd 100" by simp_all
  then have m: "400 dvd y \<Longrightarrow> 100 dvd y" "100 dvd y \<Longrightarrow> 4 dvd y"
    by (auto intro: dvd_trans)
  show ?thesis unfolding is_leap_def dvd_eq_mod_eq_0[symmetric]
    using m by (cases "4 dvd y"; cases "100 dvd y"; cases "400 dvd y") simp_all
qed

lemma days_before_year_succ:
  "days_before_year (y + 1) = days_before_year y + (if is_leap y then 366 else 365)"
proof -
  have s4: "(y + 4) div 4 = (y + 3) div 4 + of_bool (4 dvd y)"
    using div_succ_step[of 4 y] by simp
  have s100: "(y + 100) div 100 = (y + 99) div 100 + of_bool (100 dvd y)"
    using div_succ_step[of 100 y] by simp
  have s400: "(y + 400) div 400 = (y + 399) div 400 + of_bool (400 dvd y)"
    using div_succ_step[of 400 y] by simp
  have e: "days_before_year (y + 1) = 365 * y + 365 + (y + 4) div 4 - (y + 100) div 100 + (y + 400) div 400"
    unfolding days_before_year_def by (simp add: algebra_simps)
  have e0: "days_before_year y = 365 * y + (y + 3) div 4 - (y + 99) div 100 + (y + 399) div 400"
    by (simp add: days_before_year_def)
  show ?thesis using e e0 s4 s100 s400 leap_count[of y] by linarith
qed

lemma days_before_month_Suc:
  "1 \<le> m \<Longrightarrow> days_before_month (Suc m) y = days_before_month m y + days_in m y"
  by (simp add: days_before_month_def)

lemma days_before_month_12:
  "days_before_month 12 y + 31 = (if is_leap y then 366 else 365)"
  by (simp add: days_before_month_def days_in_def upt_rec)

lemma int_div_mod_split: "int a = int (a div k) * int k + int (a mod k)"
  by (metis div_mult_mod_eq of_nat_add of_nat_mult)

lemma carry_identity:
  fixes D n0 s0 m0 h0 d ND NM SD SM MD MM HD HM :: int
  assumes "n0 + d = ND * 1000000000 + NM" "s0 + ND = SD * 60 + SM" "m0 + SD = MD * 60 + MM" "h0 + MD = HD * 24 + HM"
  shows "((((D + HD) * 24 + HM) * 60 + MM) * 60 + SM) * 1000000000 + NM =
         (((D * 24 + h0) * 60 + m0) * 60 + s0) * 1000000000 + n0 + d"
proof -
  have "NM = n0 + d - ND * 1000000000" "SM = s0 + ND - SD * 60" "MM = m0 + SD - MD * 60" "HM = h0 + MD - HD * 24"
    using assms by linarith+
  then show ?thesis by (simp add: algebra_simps)
qed

lemma next_day_num:
  assumes "valid_civil c"
  shows "valid_civil (next_day c) \<and> day_num (next_day c) = day_num c + 1"
proof -
  consider (d) "day c < days_in (month c) (year c)"
    | (m) "\<not> day c < days_in (month c) (year c)" "month c < 12"
    | (y) "\<not> day c < days_in (month c) (year c)" "\<not> month c < 12"
    by blast
  then show ?thesis
  proof cases
    case d
    then show ?thesis using assms by (simp add: next_day_def valid_civil_def day_num_def)
  next
    case m
    then have "day c = days_in (month c) (year c)" using assms by (simp add: valid_civil_def)
    moreover have "1 \<le> days_in (Suc (month c)) (year c)" by (simp add: days_in_def)
    ultimately show ?thesis using m assms
      by (simp add: next_day_def valid_civil_def day_num_def days_before_month_Suc)
  next
    case y
    then have "month c = 12" "day c = 31" using assms by (auto simp: valid_civil_def days_in_def)
    then show ?thesis using assms days_before_month_12[of "year c"]
      by (simp add: next_day_def valid_civil_def day_num_def days_before_year_succ days_in_def
                    days_before_month_def split: if_splits)
  qed
qed

lemma funpow_next_day:
  "valid_civil c \<Longrightarrow> valid_civil ((next_day ^^ k) c) \<and> day_num ((next_day ^^ k) c) = day_num c + int k"
  by (induction k) (auto simp: next_day_num)

lemma next_day_time [simp]:
  "hour (next_day c) = hour c" "minute (next_day c) = minute c" "second (next_day c) = second c"
  "nanosecond (next_day c) = nanosecond c"
  by (simp_all add: next_day_def)

lemma funpow_next_day_time [simp]:
  "hour ((next_day ^^ k) c) = hour c" "minute ((next_day ^^ k) c) = minute c"
  "second ((next_day ^^ k) c) = second c" "nanosecond ((next_day ^^ k) c) = nanosecond c"
  by (induction k) simp_all

theorem time_add_abs:
  assumes "valid_civil c"
  shows "valid_civil (time_add c d) \<and> abs_nanos (time_add c d) = abs_nanos c + int d"
proof -
  define ns where "ns = nanosecond c + d"
  define s where "s = second c + ns div 1000000000"
  define mi where "mi = minute c + s div 60"
  define h where "h = hour c + mi div 60"
  define c' where "c' = c\<lparr>hour := h mod 24, minute := mi mod 60, second := s mod 60, nanosecond := ns mod 1000000000\<rparr>"
  have ta: "time_add c d = (next_day ^^ (h div 24)) c'"
    by (simp add: time_add_def Let_def ns_def s_def mi_def h_def c'_def)
  have v: "valid_civil c'" using assms by (simp add: valid_civil_def c'_def)
  have dn: "day_num c' = day_num c" by (simp add: day_num_def c'_def)
  have e1: "int (nanosecond c) + int d = int (ns div 1000000000) * 1000000000 + int (ns mod 1000000000)"
    using int_div_mod_split[of "nanosecond c + d" 1000000000] unfolding ns_def by (simp only: of_nat_add of_nat_numeral)
  have e2: "int (second c) + int (ns div 1000000000) = int (s div 60) * 60 + int (s mod 60)"
    using int_div_mod_split[of "second c + ns div 1000000000" 60] unfolding s_def
    by (simp only: of_nat_add of_nat_numeral)
  have e3: "int (minute c) + int (s div 60) = int (mi div 60) * 60 + int (mi mod 60)"
    using int_div_mod_split[of "minute c + s div 60" 60] unfolding mi_def by (simp only: of_nat_add of_nat_numeral)
  have e4: "int (hour c) + int (mi div 60) = int (h div 24) * 24 + int (h mod 24)"
    using int_div_mod_split[of "hour c + mi div 60" 24] unfolding h_def by (simp only: of_nat_add of_nat_numeral)
  have k: "day_num ((next_day ^^ (h div 24)) c') = day_num c + int (h div 24)"
    using funpow_next_day[OF v, of "h div 24"] dn by simp
  have f: "hour c' = h mod 24" "minute c' = mi mod 60" "second c' = s mod 60" "nanosecond c' = ns mod 1000000000"
    by (simp_all add: c'_def)
  have "abs_nanos ((next_day ^^ (h div 24)) c') = abs_nanos c + int d"
    unfolding abs_nanos_day_num funpow_next_day_time k f
    using carry_identity[OF e1 e2 e3 e4, of "day_num c"] by simp
  then show ?thesis using ta funpow_next_day[OF v] by simp
qed

end
