(* ===== verification/UnitTest.thy ===== *)
theory UnitTest
  imports TimeAdd Retention
begin

text \<open>
  \<open>TestSort\<close> of \<open>dailywriter_test.go\<close>: five \<open>logInfo\<close> values stamped
  \<open>base + t\<close> seconds for \<open>t\<close> in \<open>[1, 2, 10, 4, 8]\<close>, sorted with
  \<open>byFormatTime\<close>, are compared with the counts sorted in descending
  order; the indices where \<open>Equal\<close> fails are the test's \<open>tt.Error\<close>
  calls.  The test then assigns the package variable
  \<open>defaultFilenameDateFormat\<close> and parses a string with it; it leaves
  \<open>defaultFilenameDateLength\<close> alone.  \<open>time.Now()\<close> is the argument
  \<open>base\<close>, the package state the argument \<open>g\<close>.
\<close>

text \<open>\<open>timeCnt\<close> and \<open>time.Duration(t) * time.Second\<close> (an \<open>int64\<close> product).\<close>

definition test_time_cnt :: "int list" where "test_time_cnt = [1, 2, 10, 4, 8]"

definition test_dur :: "int \<Rightarrow> nat" where
  "test_dur t = nat (sint (word_of_int t * second_ns))"

text \<open>The slice \<open>c\<close>: the \<open>os.FileInfo\<close> of each entry is \<open>nil\<close> (no name).\<close>

definition test_log_infos :: "civil \<Rightarrow> log_info list" where
  "test_log_infos base = map (\<lambda>t. \<lparr>li_time = time_add base (test_dur t), li_name = []\<rparr>) test_time_cnt"

text \<open>\<open>sort.Slice(timeCnt, func(i, j int) bool { return timeCnt[i] >= timeCnt[j] })\<close>.\<close>

definition test_desc_cnt :: "int list" where
  "test_desc_cnt = sort_key uminus test_time_cnt"

definition test_sort_errors :: "civil \<Rightarrow> nat list" where
  "test_sort_errors base =
     (let c = by_format_time (test_log_infos base)
      in filter (\<lambda>i. \<not> time_equal (li_time (c ! i)) (time_add base (test_dur (test_desc_cnt ! i))))
           [0..<length test_desc_cnt])"

text \<open>\<open>defaultFilenameDateFormat = "2006-01-02-15-04"\<close>.\<close>

definition test_globals :: "dw_globals \<Rightarrow> dw_globals" where
  "test_globals g = g\<lparr>filename_date_format := layout_minute\<rparr>"

text \<open>
  The test: the failing indices, the package state it leaves, and what
  \<open>time.ParseInLocation\<close> returns (the test prints it).
\<close>

definition test_sort :: "dw_globals \<Rightarrow> civil \<Rightarrow> nat list \<times> dw_globals \<times> (perr + civil)" where
  "test_sort g base =
     (test_sort_errors base, test_globals g,
      time_parse (filename_date_format (test_globals g)) ''2019-07-12-19-19'')"

lemma test_dur_eq:
  assumes "0 \<le> t" "t < 9000000000"
  shows "test_dur t = nat (t * 1000000000)"
proof -
  have "word_of_int t * second_ns = (word_of_int (t * 1000000000) :: 64 word)"
    by (simp add: second_ns_def wi_hom_mult[symmetric])
  moreover have "sint (word_of_int (t * 1000000000) :: 64 word) = t * 1000000000"
    using assms by (intro sint_word_of_int_id) simp_all
  ultimately show ?thesis by (simp add: test_dur_def)
qed

lemma test_desc: "test_desc_cnt = [10, 8, 4, 2, 1]"
  by (simp add: test_desc_cnt_def test_time_cnt_def)

text \<open>
  C35: for every valid reading of the clock,
  \<open>TestSort\<close> reports no error: \<open>byFormatTime\<close> orders the entries newest
  first, so each agrees with the descending counts.
\<close>

theorem test_sort_passes:
  assumes "valid_civil base"
  shows "fst (test_sort g base) = []"
proof -
  have a: "abs_nanos (time_add base d) = abs_nanos base + int d" for d
    using time_add_abs[OF assms] by simp
  have d: "test_dur 1 = 1000000000" "test_dur 2 = 2000000000" "test_dur 10 = 10000000000"
    "test_dur 4 = 4000000000" "test_dur 8 = 8000000000"
    by (simp_all add: test_dur_eq)
  have "by_format_time (test_log_infos base) =
     map (\<lambda>t. \<lparr>li_time = time_add base (test_dur t), li_name = []\<rparr>) [10, 8, 4, 2, 1]"
    by (simp add: by_format_time_def test_log_infos_def test_time_cnt_def a d)
  then show ?thesis by (simp add: test_sort_def test_sort_errors_def test_desc time_equal_def)
qed

theorem test_sort_passes_witness:
  "fst (test_sort dw_globals_init t0) = [] \<and>
   snd (snd (test_sort dw_globals_init t0)) = Inr (civil0\<lparr>year := 2019, month := 7, day := 12, hour := 19, minute := 19\<rparr>)"
proof -
  have "time_parse layout_minute ''2019-07-12-19-19'' =
          Inr (civil0\<lparr>year := 2019, month := 7, day := 12, hour := 19, minute := 19\<rparr>)"
    by code_simp
  then have "snd (snd (test_sort dw_globals_init t0)) =
               Inr (civil0\<lparr>year := 2019, month := 7, day := 12, hour := 19, minute := 19\<rparr>)"
    by (simp add: test_sort_def test_globals_def)
  then show ?thesis using test_sort_passes[OF t0_valid(1)] by simp
qed

text \<open>
  C36: \<open>TestSort\<close> changes the date layout to
  minutes (16 characters) but not the date length; unless that length
  was already 16, the package state is inconsistent afterwards and no
  file name that \<open>filenameWithTime\<close> then makes decodes by
  \<open>timeForName\<close>, so later tests of the package would never see their
  files as old.
\<close>

theorem test_sort_breaks_codec:
  assumes len: "filename_date_length g \<noteq> 16" and t: "valid_civil t" "0 \<le> year t" "year t < 10000"
    and w: "CHR ''/'' \<notin> set (filename_prefix w)" "CHR ''/'' \<notin> set (filename_suffix w)"
  shows "\<not> globals_consistent (fst (snd (test_sort g base))) \<and>
         time_for_name (fst (snd (test_sort g base)))
           (path_base (filename_with_time (fst (snd (test_sort g base))) w t)) (filename_prefix w) (filename_suffix w)
         = Inl ErrMismatchedDate"
proof -
  let ?g = "test_globals g"
  have g: "fst (snd (test_sort g base)) = ?g" by (simp add: test_sort_def)
  have l: "list_all chunk_rt layout_minute" by (rule codec_layouts_rt(1)) simp
  have "StdLit CHR ''/'' \<notin> set layout_minute" by (simp add: layout_defs)
  then have "CHR ''/'' \<notin> set (time_format layout_minute t)" using time_format_no_slash[OF t(2)] by blast
  with w have base: "path_base (filename_with_time ?g w t)
      = filename_prefix w @ CHR ''_'' # time_format layout_minute t @ filename_suffix w"
    by (simp add: filename_with_time_def test_globals_def)
  have "length (time_format layout_minute t) = 16"
    using length_time_format[OF t l] by (simp add: layout_defs)
  then have "time_for_name ?g (path_base (filename_with_time ?g w t)) (filename_prefix w) (filename_suffix w)
             = Inl ErrMismatchedDate"
    using time_for_name_split[of ?g "filename_prefix w" "CHR ''_''" "time_format layout_minute t"] len
    by (simp only: base) (simp add: test_globals_def)
  moreover have "\<not> globals_consistent ?g"
    using len by (auto simp: globals_consistent_def test_globals_def layout_defs)
  ultimately show ?thesis using g by simp
qed

theorem test_sort_breaks_codec_witness:
  "\<not> globals_consistent (fst (snd (test_sort dw_globals_init t0))) \<and>
   time_for_name (fst (snd (test_sort dw_globals_init t0)))
     (path_base (filename_with_time (fst (snd (test_sort dw_globals_init t0))) w0 t0)) ''app'' ''.log''
   = Inl ErrMismatchedDate"
proof -
  have h: "filename_date_length dw_globals_init \<noteq> 16" "CHR ''/'' \<notin> set (filename_prefix w0)"
    "CHR ''/'' \<notin> set (filename_suffix w0)" "filename_prefix w0 = ''app''" "filename_suffix w0 = ''.log''"
    by (simp_all add: dw_globals_init_def w0_def)
  show ?thesis using test_sort_breaks_codec[OF h(1) t0_valid h(2,3), of t0] h(4,5) by simp
qed

end
