(* ===== verification/Spec2Isabelle.thy ===== *)
theory Spec2Isabelle
  imports Entry UnitTest
begin

text \<open>
  A verification development for the rotating log writer and the
  asynchronous logger of this repository.

  \<^bold>\<open>The program.\<close>  \<open>src/dailywriter/dailywriter.go\<close> is \<open>DailyWriter\<close>, an
  \<open>io.WriteCloser\<close> that writes into one file per time bucket (day, hour,
  minute or second) named \<open>prefix_DATE suffix\<close> in a directory, rotating
  when a write falls into a new bucket, and a background goroutine that
  deletes files older than \<open>reserve\<close> buckets and gzips the others.
  \<open>src/midaslog\<close> is a logging facade: \<open>simpleLogger\<close> filters by level,
  formats with \<open>simpleFormater\<close> and hands the line to an \<open>IWriter\<close>; the
  \<open>IWriter\<close> of \<open>main.go\<close> is \<open>asyncLog\<close>, a buffered channel drained by a
  goroutine that calls \<open>WriteWithTime\<close> on the \<open>DailyWriter\<close> routed for the
  record's level.

  \<^bold>\<open>Theories.\<close>
  \<^item> \<open>Prelude\<close>: bytes, the error values of the program (\<open>err\<close>, with Go's
    panics as the constructor \<open>Panic\<close>), \<open>strings.HasPrefix\<close>/\<open>HasSuffix\<close>,
    slice expressions with their panic, alist and word facts.
  \<^item> \<open>GoTime\<close>: the part of Go's \<open>time\<close> package the program uses: civil
    times, the layout chunker (\<open>layout_chunks\<close>), \<open>Format\<close> (\<open>time_format\<close>),
    \<open>Parse\<close> (\<open>time_parse\<close>) and the nanosecond instant (\<open>abs_nanos\<close>); the
    round trip \<open>time_parse_format\<close>.
  \<^item> \<open>FileSys\<close>: the \<open>os\<close> calls (\<open>Stat\<close>, \<open>MkdirAll\<close>, \<open>OpenFile\<close>, \<open>Write\<close>,
    \<open>Close\<close>, \<open>Remove\<close>, \<open>ReadDir\<close>) over a flat table of paths, with denied
    paths and a full disk as the error sources.
  \<^item> \<open>Codec\<close>: the package variables of \<open>dailywriter.go\<close> (\<open>dw_globals\<close>: date
    layout, its length, the interval), \<open>init\<close>, \<open>New\<close> (\<open>dw_new\<close>,
    \<open>set_time_type\<close>), the \<open>DailyWriter\<close> record (\<open>dwriter\<close>),
    \<open>filenameWithTime\<close> and \<open>timeForName\<close>; the name round trip and the
    consequences of the shared package state.
  \<^item> \<open>Rotator\<close>: \<open>Write\<close>, \<open>WriteWithTime\<close>, \<open>Rotate\<close>,
    \<open>RotateWithNewFileName\<close>, \<open>Close\<close>, \<open>openExistingOrNew\<close>, \<open>openNew\<close>,
    \<open>rotate\<close> and \<open>clean\<close> as functions of the file system and the writer
    (the writer's mutex makes each method one step); the handle invariant
    \<open>dw_inv\<close> kept by every operation (\<open>dw_step\<close>); the behaviour of the write
    path on every branch, its errors included; the abstract view of a
    sequence of writes as one file per time bucket (\<open>bucket_names\<close>,
    \<open>bucket_data\<close>) and the refinement \<open>dw_writes_refines\<close>.
  \<^item> \<open>Retention\<close>: \<open>oldLogFiles\<close>, \<open>doClean\<close> with its \<open>int64\<close> cutoff,
    \<open>compressLogFile\<close> and one turn of \<open>cleanRun\<close>; the abstract contract
    \<open>clean_spec\<close> of a clean and the refinement \<open>do_clean_refines\<close>.
  \<^item> \<open>AsyncLog\<close>: \<open>asyncLog\<close> as a step relation over the events of its client
    goroutines and of \<open>asyncLogRun\<close> (\<open>alog_exec\<close>, runs \<open>alog_run\<close>,
    reachability \<open>areach\<close>), generic in the writers behind the route; FIFO
    and capacity invariant, delivery, the loss of buffered records at
    \<open>StopAndReset\<close> and the deadlock of a second \<open>StopAndReset\<close>.
  \<^item> \<open>Logger\<close>: levels, \<open>LogLevels\<close>, \<open>fmt.Sprintf\<close> on string operands,
    \<open>simpleFormater\<close> and \<open>simpleLogger\<close> over any \<open>IWriter\<close>.
  \<^item> \<open>Interfaces\<close>: \<open>ILogger\<close>, \<open>IFormater\<close>, \<open>IWriter\<close> and
    \<open>IWriterWithTime\<close> of \<open>base.go\<close> as records of their methods; the
    dispatcher's calls through \<open>IWriterWithTime\<close> (\<open>iwt_deliver\<close>,
    \<open>iwt_close\<close>); the implementations \<open>alog_iwriter\<close> (\<open>*asyncLog\<close>),
    \<open>simple_iformater\<close> and \<open>dw_iwt\<close> (\<open>*DailyWriter\<close>).
  \<^item> \<open>Entry\<close>: \<open>main.go\<close>: the set-up (\<open>main_setup\<close>), a goroutine's
    calls (\<open>main_call\<close>, \<open>main_goroutine\<close>) and the endless-looking loop as
    a step relation (\<open>main_exec\<close>, \<open>mreach\<close>) in which the goroutines of a
    round, the dispatcher and the writer's cleaner interleave; its invariant \<open>main_inv\<close>, the
    measure that makes every run finite, progress (\<open>main_reaches_done\<close>),
    the counting of accepted records with multisets, and a schedule,
    built for every round size and number of rounds, on which \<open>main\<close>
    returns with accepted records still in the channel
    (\<open>main_exit_loses_records\<close>).
  \<^item> \<open>TimeAdd\<close>: \<open>Time.Add\<close> for non-negative durations and \<open>Time.Equal\<close>;
    \<open>time_add_abs\<close>: the instant moves by exactly the duration.
  \<^item> \<open>UnitTest\<close>: \<open>TestSort\<close> of \<open>dailywriter_test.go\<close> (\<open>test_sort\<close>):
    it passes for every valid base time, and, unless the layout length
    was already 16, it leaves the package's layout and layout length
    inconsistent, which breaks the file-name codec.
  \<^item> This theory: this overview.

  \<^bold>\<open>How the state corresponds.\<close>  Go's pointers to a \<open>DailyWriter\<close> or an
  \<open>asyncLog\<close> become records passed and returned; the package variables are
  the record \<open>dw_globals\<close> passed explicitly; the file system is a value
  \<open>fsys\<close> threaded through every call; \<open>time.Now()\<close> is an argument
  (\<open>clock\<close>).  Errors are \<open>err\<close> values, \<open>err option\<close> for Go's \<open>error\<close>
  results and \<open>err + 'a\<close> for results with errors; a step that blocks is
  \<open>None\<close>.  \<open>time.Duration\<close> is a \<open>64 word\<close>, so \<open>int64\<close> products wrap.

  \<^bold>\<open>Concurrency.\<close>  Each method of \<open>DailyWriter\<close> holds the writer's mutex
  and is one step.  The cleaner goroutine's \<open>doClean\<close> is also one step
  (\<open>clean_run\<close>), although the code reads \<open>curFilename\<close> without the lock.
  The dispatcher is modelled at the granularity of its channel operations;
  \<open>Log\<close> reads the clock before it takes the dispatcher's mutex, so two
  goroutines can hand their records over in the opposite order of their
  clock readings, which the events of \<open>AsyncLog\<close> and \<open>Entry\<close> allow (the
  clock of a call is any reading).

  \<^bold>\<open>No fuel, no partial functions.\<close>  All loops of the program are over
  finite lists (directory entries, log files, route entries, format
  characters) and are structural recursions; the dispatcher's endless loop
  is the step relation, whose progress is stated by \<open>drain_terminates\<close> and
  \<open>reset_completes\<close>.  The loop of \<open>main\<close> is bounded (\<open>rounds\<close> rounds of
  \<open>nb\<close> goroutines) and is also a step relation: \<open>main_measure\<close>, the rounds
  left times \<open>9 * nb + 1\<close> plus three times the calls pending plus twice the
  buffered records plus the cleaner's pending signal, falls at every step, which is \<open>main_terminates\<close>; its
  witnesses use one round of one goroutine, which the theorems' parameters
  allow, since evaluating 10000 goroutines is out of reach of \<open>code_simp\<close>.
  Witnesses evaluate with \<open>simp\<close> and \<open>code_simp\<close>; their
  clocks carry whole seconds.

  \<^bold>\<open>Not modelled.\<close>  Go's \<open>testing\<close> package beyond the list of
  failed comparisons of \<open>TestSort\<close>; \<open>Time.Add\<close> of negative durations
  (the test adds positive ones); the
  durations of \<open>main.go\<close>'s \<open>time.Sleep\<close> calls (a sleep only delays a
  step, and every schedule is a run of \<open>main_exec\<close>); time zones (\<open>Local\<close>
  is taken as a zone without offset changes); \<open>filepath.Clean\<close>; the
  bytes of the gzip stream (a parameter \<open>gz\<close>); the order of Go's map
  iteration and of the unstable \<open>sort.Sort\<close> among equal times (the model
  fixes one); \<open>fmt\<close> flags, widths and the verbs \<open>%q\<close>, \<open>%x\<close>, \<open>%X\<close>;
  layout elements of \<open>time\<close> other than those of the program's layouts;
  partial writes (a failing write writes nothing); the data race on
  \<open>curFilename\<close>; the \<open>unsafe\<close> sharing of \<open>s2b\<close> (the model copies the
  bytes, which is what a reader of the slice sees as long as nobody
  mutates it).
\<close>

end
